theory Spec2Isabelle
  imports Main "HOL-Library.Word" "HOL-Library.AList"
begin

unbundle bit_operations_syntax

section \<open>Bytes, numbers and typed-array accessors\<close>

text \<open>
  A \<open>Uint8Array\<close> is a list of bytes. A JavaScript \<open>number\<close> holding an integer is an
  \<open>int\<close>. The \<open>DataView\<close> setters reduce the number modulo the width of the slot
  (\<open>word_of_int\<close>); the getters read a slot as unsigned (\<open>uint\<close>) or, for
  \<open>getInt8\<close>, as two's complement (\<open>sint\<close>).
\<close>

type_synonym byte = "8 word"
type_synonym bytes = "byte list"

datatype error =
    Error
  | RangeError
  | BLEConnectionError
  | BLETimeoutError
  | ProtocolError
  | ConfigParseError
  | InvalidResponseError

definition setUint8 :: "int \<Rightarrow> bytes" where
  "setUint8 v = [word_of_int v]"

definition setInt8 :: "int \<Rightarrow> bytes" where
  "setInt8 v = [word_of_int v]"

definition setUint16_le :: "int \<Rightarrow> bytes" where
  "setUint16_le v = [word_of_int v, word_of_int (v div 256)]"

definition setUint16_be :: "int \<Rightarrow> bytes" where
  "setUint16_be v = [word_of_int (v div 256), word_of_int v]"

text \<open>The three \<open>setUint8\<close> calls of the battery capacity: \<open>v & 0xff\<close>,
  \<open>(v >> 8) & 0xff\<close>, \<open>(v >> 16) & 0xff\<close>.\<close>

definition setUint24_le :: "int \<Rightarrow> bytes" where
  "setUint24_le v = [word_of_int v, word_of_int (v div 256), word_of_int (v div 256 div 256)]"

definition setUint32_le :: "int \<Rightarrow> bytes" where
  "setUint32_le v =
     [word_of_int v, word_of_int (v div 256), word_of_int (v div 256 div 256),
      word_of_int (v div 256 div 256 div 256)]"

definition getUint8 :: "bytes \<Rightarrow> nat \<Rightarrow> int" where
  "getUint8 d off = uint (d ! off)"

definition getInt8 :: "bytes \<Rightarrow> nat \<Rightarrow> int" where
  "getInt8 d off = sint (d ! off)"

definition getUint16_le :: "bytes \<Rightarrow> nat \<Rightarrow> int" where
  "getUint16_le d off = uint (d ! off) + 256 * uint (d ! (off + 1))"

definition getUint16_be :: "bytes \<Rightarrow> nat \<Rightarrow> int" where
  "getUint16_be d off = 256 * uint (d ! off) + uint (d ! (off + 1))"

text \<open>\<open>data[1] | (data[2] << 8) | (data[3] << 16)\<close>: the bytes do not overlap, so the
  bitwise or is the sum.\<close>

definition getUint24_le :: "bytes \<Rightarrow> nat \<Rightarrow> int" where
  "getUint24_le d off =
     uint (d ! off) + 256 * (uint (d ! (off + 1)) + 256 * uint (d ! (off + 2)))"

definition getUint32_le :: "bytes \<Rightarrow> nat \<Rightarrow> int" where
  "getUint32_le d off =
     uint (d ! off) + 256 * (uint (d ! (off + 1)) + 256 * (uint (d ! (off + 2))
       + 256 * uint (d ! (off + 3))))"

text \<open>\<open>data.slice(a, b)\<close> for \<open>0 \<le> a \<le> b\<close>: the elements from \<open>a\<close> up to \<open>b\<close>
  exclusive, fewer if the array ends before.\<close>

definition slice :: "bytes \<Rightarrow> nat \<Rightarrow> nat \<Rightarrow> bytes" where
  "slice d a b = take (b - a) (drop a d)"

text \<open>\<open>result.set(r.subarray(0, n), off)\<close> into a zero-filled buffer whose slot at
  \<open>off\<close> is \<open>n\<close> bytes wide: the first \<open>n\<close> bytes of \<open>r\<close>; the slot keeps its
  zeros where \<open>r\<close> is shorter.\<close>

definition set_reserved :: "nat \<Rightarrow> bytes \<Rightarrow> bytes" where
  "set_reserved n r = take n r @ replicate (n - length r) 0"

section \<open>The eight record types (models/config.ts)\<close>

record SystemConfig =
  icType :: int
  communicationModes :: int
  deviceFlags :: int
  pwrPin :: int
  reserved_system :: bytes

record ManufacturerData =
  manufacturerId :: int
  boardType :: int
  boardRevision :: int
  reserved_manufacturer :: bytes

record PowerOption =
  powerMode :: int
  batteryCapacityMah :: int
  sleepTimeoutMs :: int
  txPower :: int
  sleepFlags :: int
  batterySensePin :: int
  batterySenseEnablePin :: int
  batterySenseFlags :: int
  capacityEstimator :: int
  voltageScalingFactor :: int
  deepSleepCurrentUa :: int
  deepSleepTimeSeconds :: int
  reserved_power :: bytes

record DisplayConfig =
  instanceNumber_display :: int
  displayTechnology :: int
  panelIcType :: int
  pixelWidth :: int
  pixelHeight :: int
  activeWidthMm :: int
  activeHeightMm :: int
  tagType :: int
  rotation :: int
  resetPin :: int
  busyPin :: int
  dcPin :: int
  csPin :: int
  dataPin :: int
  partialUpdateSupport :: int
  colorScheme :: int
  transmissionModes :: int
  clkPin :: int
  reservedPins_display :: bytes
  reserved_display :: bytes

record LedConfig =
  instanceNumber_led :: int
  ledType :: int
  led1R :: int
  led2G :: int
  led3B :: int
  led4 :: int
  ledFlags :: int
  reserved_led :: bytes

record SensorData =
  instanceNumber_sensor :: int
  sensorType :: int
  busId :: int
  reserved_sensor :: bytes

record DataBus =
  instanceNumber_bus :: int
  busType :: int
  pin1 :: int
  pin2 :: int
  pin3 :: int
  pin4 :: int
  pin5 :: int
  pin6 :: int
  pin7 :: int
  busSpeedHz :: int
  busFlags :: int
  pullups_bus :: int
  pulldowns_bus :: int
  reserved_bus :: bytes

record BinaryInputs =
  instanceNumber_input :: int
  inputType :: int
  displayAs :: int
  reservedPins_input :: bytes
  inputFlags :: int
  invert :: int
  pullups_input :: int
  pulldowns_input :: int
  reserved_input :: bytes

subsection \<open>Encoders (protocol/config-serializer.ts)\<close>

text \<open>
  Each encoder fills a zero-initialised buffer of the record's size by writes at fixed
  offsets. The offsets are contiguous and cover the buffer, so the buffer is the
  concatenation of the written slots in offset order.
\<close>

definition serializeSystemConfig :: "SystemConfig \<Rightarrow> bytes" where
  "serializeSystemConfig config =
     setUint16_le (icType config) @ setUint8 (communicationModes config)
     @ setUint8 (deviceFlags config) @ setUint8 (pwrPin config)
     @ set_reserved 17 (reserved_system config)"

definition serializeManufacturerData :: "ManufacturerData \<Rightarrow> bytes" where
  "serializeManufacturerData config =
     setUint16_le (manufacturerId config) @ setUint8 (boardType config)
     @ setUint8 (boardRevision config) @ set_reserved 18 (reserved_manufacturer config)"

definition serializePowerOption :: "PowerOption \<Rightarrow> bytes" where
  "serializePowerOption config =
     setUint8 (powerMode config) @ setUint24_le (batteryCapacityMah config)
     @ setUint16_le (sleepTimeoutMs config) @ setInt8 (txPower config)
     @ setUint8 (sleepFlags config) @ setUint8 (batterySensePin config)
     @ setUint8 (batterySenseEnablePin config) @ setUint8 (batterySenseFlags config)
     @ setUint8 (capacityEstimator config) @ setUint16_le (voltageScalingFactor config)
     @ setUint32_le (deepSleepCurrentUa config) @ setUint16_le (deepSleepTimeSeconds config)
     @ set_reserved 10 (reserved_power config)"

definition serializeDisplayConfig :: "DisplayConfig \<Rightarrow> bytes" where
  "serializeDisplayConfig config =
     setUint8 (instanceNumber_display config) @ setUint8 (displayTechnology config)
     @ setUint16_le (panelIcType config) @ setUint16_le (pixelWidth config)
     @ setUint16_le (pixelHeight config) @ setUint16_le (activeWidthMm config)
     @ setUint16_le (activeHeightMm config) @ setUint16_le (tagType config)
     @ setUint8 (rotation config) @ setUint8 (resetPin config) @ setUint8 (busyPin config)
     @ setUint8 (dcPin config) @ setUint8 (csPin config) @ setUint8 (dataPin config)
     @ setUint8 (partialUpdateSupport config) @ setUint8 (colorScheme config)
     @ setUint8 (transmissionModes config) @ setUint8 (clkPin config)
     @ set_reserved 7 (reservedPins_display config)
     @ set_reserved 15 (reserved_display config)"

definition serializeLedConfig :: "LedConfig \<Rightarrow> bytes" where
  "serializeLedConfig config =
     setUint8 (instanceNumber_led config) @ setUint8 (ledType config)
     @ setUint8 (led1R config) @ setUint8 (led2G config) @ setUint8 (led3B config)
     @ setUint8 (led4 config) @ setUint8 (ledFlags config)
     @ set_reserved 15 (reserved_led config)"

definition serializeSensorData :: "SensorData \<Rightarrow> bytes" where
  "serializeSensorData config =
     setUint8 (instanceNumber_sensor config) @ setUint16_le (sensorType config)
     @ setUint8 (busId config) @ set_reserved 26 (reserved_sensor config)"

definition serializeDataBus :: "DataBus \<Rightarrow> bytes" where
  "serializeDataBus config =
     setUint8 (instanceNumber_bus config) @ setUint8 (busType config)
     @ setUint8 (pin1 config) @ setUint8 (pin2 config) @ setUint8 (pin3 config)
     @ setUint8 (pin4 config) @ setUint8 (pin5 config) @ setUint8 (pin6 config)
     @ setUint8 (pin7 config) @ setUint32_le (busSpeedHz config)
     @ setUint8 (busFlags config) @ setUint8 (pullups_bus config)
     @ setUint8 (pulldowns_bus config) @ set_reserved 14 (reserved_bus config)"

definition serializeBinaryInputs :: "BinaryInputs \<Rightarrow> bytes" where
  "serializeBinaryInputs config =
     setUint8 (instanceNumber_input config) @ setUint8 (inputType config)
     @ setUint8 (displayAs config) @ set_reserved 8 (reservedPins_input config)
     @ setUint8 (inputFlags config) @ setUint8 (invert config)
     @ setUint8 (pullups_input config) @ setUint8 (pulldowns_input config)
     @ set_reserved 15 (reserved_input config)"

subsection \<open>Decoders (\<open>fromBytes\<close> of each namespace in models/config.ts)\<close>

definition SystemConfig_fromBytes :: "bytes \<Rightarrow> error + SystemConfig" where
  "SystemConfig_fromBytes d =
     (if length d < 22 then Inl Error
      else Inr \<lparr>icType = getUint16_le d 0, communicationModes = getUint8 d 2,
                deviceFlags = getUint8 d 3, pwrPin = getUint8 d 4,
                reserved_system = slice d 5 22\<rparr>)"

definition ManufacturerData_fromBytes :: "bytes \<Rightarrow> error + ManufacturerData" where
  "ManufacturerData_fromBytes d =
     (if length d < 22 then Inl Error
      else Inr \<lparr>manufacturerId = getUint16_le d 0, boardType = getUint8 d 2,
                boardRevision = getUint8 d 3, reserved_manufacturer = slice d 4 22\<rparr>)"

definition PowerOption_fromBytes :: "bytes \<Rightarrow> error + PowerOption" where
  "PowerOption_fromBytes d =
     (if length d < 30 then Inl Error
      else Inr \<lparr>powerMode = getUint8 d 0, batteryCapacityMah = getUint24_le d 1,
                sleepTimeoutMs = getUint16_le d 4, txPower = getInt8 d 6,
                sleepFlags = getUint8 d 7, batterySensePin = getUint8 d 8,
                batterySenseEnablePin = getUint8 d 9, batterySenseFlags = getUint8 d 10,
                capacityEstimator = getUint8 d 11, voltageScalingFactor = getUint16_le d 12,
                deepSleepCurrentUa = getUint32_le d 14,
                deepSleepTimeSeconds = getUint16_le d 18, reserved_power = slice d 20 30\<rparr>)"

definition DisplayConfig_fromBytes :: "bytes \<Rightarrow> error + DisplayConfig" where
  "DisplayConfig_fromBytes d =
     (if length d < 46 then Inl Error
      else Inr \<lparr>instanceNumber_display = getUint8 d 0, displayTechnology = getUint8 d 1,
                panelIcType = getUint16_le d 2, pixelWidth = getUint16_le d 4,
                pixelHeight = getUint16_le d 6, activeWidthMm = getUint16_le d 8,
                activeHeightMm = getUint16_le d 10, tagType = getUint16_le d 12,
                rotation = getUint8 d 14, resetPin = getUint8 d 15, busyPin = getUint8 d 16,
                dcPin = getUint8 d 17, csPin = getUint8 d 18, dataPin = getUint8 d 19,
                partialUpdateSupport = getUint8 d 20, colorScheme = getUint8 d 21,
                transmissionModes = getUint8 d 22, clkPin = getUint8 d 23,
                reservedPins_display = slice d 24 31, reserved_display = slice d 31 46\<rparr>)"

definition LedConfig_fromBytes :: "bytes \<Rightarrow> error + LedConfig" where
  "LedConfig_fromBytes d =
     (if length d < 22 then Inl Error
      else Inr \<lparr>instanceNumber_led = getUint8 d 0, ledType = getUint8 d 1,
                led1R = getUint8 d 2, led2G = getUint8 d 3, led3B = getUint8 d 4,
                led4 = getUint8 d 5, ledFlags = getUint8 d 6, reserved_led = slice d 7 22\<rparr>)"

definition SensorData_fromBytes :: "bytes \<Rightarrow> error + SensorData" where
  "SensorData_fromBytes d =
     (if length d < 30 then Inl Error
      else Inr \<lparr>instanceNumber_sensor = getUint8 d 0, sensorType = getUint16_le d 1,
                busId = getUint8 d 3, reserved_sensor = slice d 4 30\<rparr>)"

definition DataBus_fromBytes :: "bytes \<Rightarrow> error + DataBus" where
  "DataBus_fromBytes d =
     (if length d < 30 then Inl Error
      else Inr \<lparr>instanceNumber_bus = getUint8 d 0, busType = getUint8 d 1,
                pin1 = getUint8 d 2, pin2 = getUint8 d 3, pin3 = getUint8 d 4,
                pin4 = getUint8 d 5, pin5 = getUint8 d 6, pin6 = getUint8 d 7,
                pin7 = getUint8 d 8, busSpeedHz = getUint32_le d 9, busFlags = getUint8 d 13,
                pullups_bus = getUint8 d 14, pulldowns_bus = getUint8 d 15,
                reserved_bus = slice d 16 30\<rparr>)"

definition BinaryInputs_fromBytes :: "bytes \<Rightarrow> error + BinaryInputs" where
  "BinaryInputs_fromBytes d =
     (if length d < 30 then Inl Error
      else Inr \<lparr>instanceNumber_input = getUint8 d 0, inputType = getUint8 d 1,
                displayAs = getUint8 d 2, reservedPins_input = slice d 3 11,
                inputFlags = getUint8 d 11, invert = getUint8 d 12,
                pullups_input = getUint8 d 13, pulldowns_input = getUint8 d 14,
                reserved_input = slice d 15 30\<rparr>)"

subsection \<open>Field ranges\<close>

text \<open>
  A field value is in range when it lies in the range of the accessor pair that carries
  it on the wire. All fields are unsigned, of 8, 16, 24 or 32 bits, except
  \<open>txPower\<close>, which both directions carry as a signed byte
  (\<open>setInt8\<close>/\<open>getInt8\<close>). A reserved region of a record has its documented length.
\<close>

definition is_uint8 :: "int \<Rightarrow> bool" where
  "is_uint8 v \<longleftrightarrow> 0 \<le> v \<and> v < 256"

definition is_int8 :: "int \<Rightarrow> bool" where
  "is_int8 v \<longleftrightarrow> - 128 \<le> v \<and> v < 128"

definition is_uint16 :: "int \<Rightarrow> bool" where
  "is_uint16 v \<longleftrightarrow> 0 \<le> v \<and> v < 65536"

definition is_uint24 :: "int \<Rightarrow> bool" where
  "is_uint24 v \<longleftrightarrow> 0 \<le> v \<and> v < 16777216"

definition is_uint32 :: "int \<Rightarrow> bool" where
  "is_uint32 v \<longleftrightarrow> 0 \<le> v \<and> v < 4294967296"

definition valid_SystemConfig :: "SystemConfig \<Rightarrow> bool" where
  "valid_SystemConfig r \<longleftrightarrow>
     is_uint16 (icType r) \<and> is_uint8 (communicationModes r) \<and> is_uint8 (deviceFlags r)
     \<and> is_uint8 (pwrPin r) \<and> length (reserved_system r) = 17"

definition valid_ManufacturerData :: "ManufacturerData \<Rightarrow> bool" where
  "valid_ManufacturerData r \<longleftrightarrow>
     is_uint16 (manufacturerId r) \<and> is_uint8 (boardType r) \<and> is_uint8 (boardRevision r)
     \<and> length (reserved_manufacturer r) = 18"

definition valid_PowerOption :: "PowerOption \<Rightarrow> bool" where
  "valid_PowerOption r \<longleftrightarrow>
     is_uint8 (powerMode r) \<and> is_uint24 (batteryCapacityMah r)
     \<and> is_uint16 (sleepTimeoutMs r) \<and> is_int8 (txPower r) \<and> is_uint8 (sleepFlags r)
     \<and> is_uint8 (batterySensePin r) \<and> is_uint8 (batterySenseEnablePin r)
     \<and> is_uint8 (batterySenseFlags r) \<and> is_uint8 (capacityEstimator r)
     \<and> is_uint16 (voltageScalingFactor r) \<and> is_uint32 (deepSleepCurrentUa r)
     \<and> is_uint16 (deepSleepTimeSeconds r) \<and> length (reserved_power r) = 10"

text \<open>The ranges of a power record as the comments of the interface \<open>PowerOption\<close>
  document them: there \<open>txPower\<close> is marked \<open>uint8\<close> like its neighbours.\<close>

definition documented_PowerOption :: "PowerOption \<Rightarrow> bool" where
  "documented_PowerOption r \<longleftrightarrow>
     is_uint8 (powerMode r) \<and> is_uint24 (batteryCapacityMah r)
     \<and> is_uint16 (sleepTimeoutMs r) \<and> is_uint8 (txPower r) \<and> is_uint8 (sleepFlags r)
     \<and> is_uint8 (batterySensePin r) \<and> is_uint8 (batterySenseEnablePin r)
     \<and> is_uint8 (batterySenseFlags r) \<and> is_uint8 (capacityEstimator r)
     \<and> is_uint16 (voltageScalingFactor r) \<and> is_uint32 (deepSleepCurrentUa r)
     \<and> is_uint16 (deepSleepTimeSeconds r) \<and> length (reserved_power r) = 10"

definition valid_DisplayConfig :: "DisplayConfig \<Rightarrow> bool" where
  "valid_DisplayConfig r \<longleftrightarrow>
     is_uint8 (instanceNumber_display r) \<and> is_uint8 (displayTechnology r)
     \<and> is_uint16 (panelIcType r) \<and> is_uint16 (pixelWidth r) \<and> is_uint16 (pixelHeight r)
     \<and> is_uint16 (activeWidthMm r) \<and> is_uint16 (activeHeightMm r)
     \<and> is_uint16 (tagType r) \<and> is_uint8 (rotation r) \<and> is_uint8 (resetPin r)
     \<and> is_uint8 (busyPin r) \<and> is_uint8 (dcPin r) \<and> is_uint8 (csPin r)
     \<and> is_uint8 (dataPin r) \<and> is_uint8 (partialUpdateSupport r)
     \<and> is_uint8 (colorScheme r) \<and> is_uint8 (transmissionModes r) \<and> is_uint8 (clkPin r)
     \<and> length (reservedPins_display r) = 7 \<and> length (reserved_display r) = 15"

definition valid_LedConfig :: "LedConfig \<Rightarrow> bool" where
  "valid_LedConfig r \<longleftrightarrow>
     is_uint8 (instanceNumber_led r) \<and> is_uint8 (ledType r) \<and> is_uint8 (led1R r)
     \<and> is_uint8 (led2G r) \<and> is_uint8 (led3B r) \<and> is_uint8 (led4 r)
     \<and> is_uint8 (ledFlags r) \<and> length (reserved_led r) = 15"

definition valid_SensorData :: "SensorData \<Rightarrow> bool" where
  "valid_SensorData r \<longleftrightarrow>
     is_uint8 (instanceNumber_sensor r) \<and> is_uint16 (sensorType r) \<and> is_uint8 (busId r)
     \<and> length (reserved_sensor r) = 26"

definition valid_DataBus :: "DataBus \<Rightarrow> bool" where
  "valid_DataBus r \<longleftrightarrow>
     is_uint8 (instanceNumber_bus r) \<and> is_uint8 (busType r) \<and> is_uint8 (pin1 r)
     \<and> is_uint8 (pin2 r) \<and> is_uint8 (pin3 r) \<and> is_uint8 (pin4 r) \<and> is_uint8 (pin5 r)
     \<and> is_uint8 (pin6 r) \<and> is_uint8 (pin7 r) \<and> is_uint32 (busSpeedHz r)
     \<and> is_uint8 (busFlags r) \<and> is_uint8 (pullups_bus r) \<and> is_uint8 (pulldowns_bus r)
     \<and> length (reserved_bus r) = 14"

definition valid_BinaryInputs :: "BinaryInputs \<Rightarrow> bool" where
  "valid_BinaryInputs r \<longleftrightarrow>
     is_uint8 (instanceNumber_input r) \<and> is_uint8 (inputType r) \<and> is_uint8 (displayAs r)
     \<and> length (reservedPins_input r) = 8 \<and> is_uint8 (inputFlags r) \<and> is_uint8 (invert r)
     \<and> is_uint8 (pullups_input r) \<and> is_uint8 (pulldowns_input r)
     \<and> length (reserved_input r) = 15"

section \<open>Whole-configuration serializer (protocol/config-serializer.ts)\<close>

record GlobalConfig =
  system :: "SystemConfig option"
  manufacturer :: "ManufacturerData option"
  power_option :: "PowerOption option"
  displays :: "DisplayConfig list"
  leds :: "LedConfig list"
  sensors :: "SensorData list"
  dataBuses :: "DataBus list"
  binaryInputs :: "BinaryInputs list"
  version :: int
  minorVersion :: int
  loaded :: bool

definition PACKET_TYPE_SYSTEM :: byte where "PACKET_TYPE_SYSTEM = 0x01"
definition PACKET_TYPE_MANUFACTURER :: byte where "PACKET_TYPE_MANUFACTURER = 0x02"
definition PACKET_TYPE_POWER :: byte where "PACKET_TYPE_POWER = 0x04"
definition PACKET_TYPE_DISPLAY :: byte where "PACKET_TYPE_DISPLAY = 0x20"
definition PACKET_TYPE_LED :: byte where "PACKET_TYPE_LED = 0x21"
definition PACKET_TYPE_SENSOR :: byte where "PACKET_TYPE_SENSOR = 0x23"
definition PACKET_TYPE_DATABUS :: byte where "PACKET_TYPE_DATABUS = 0x24"
definition PACKET_TYPE_BINARY_INPUT :: byte where "PACKET_TYPE_BINARY_INPUT = 0x25"

text \<open>
  \<open>calculateConfigCrc\<close>. The register \<open>crc\<close> is a 32-bit pattern under JavaScript's
  bitwise operators; \<open>crc_bit\<close> is the body of the inner loop, \<open>crc_byte\<close> one
  round of the outer loop.
\<close>

definition crc_bit :: "32 word \<Rightarrow> 32 word" where
  "crc_bit crc = (if crc AND 1 \<noteq> 0 then drop_bit 1 crc XOR 0xEDB88320 else drop_bit 1 crc)"

definition crc_byte :: "32 word \<Rightarrow> byte \<Rightarrow> 32 word" where
  "crc_byte crc b = (crc_bit ^^ 8) (crc XOR ucast b)"

definition crc_register :: "bytes \<Rightarrow> 32 word" where
  "crc_register data = foldl crc_byte 0xFFFFFFFF data"

definition calculateConfigCrc :: "bytes \<Rightarrow> int" where
  "calculateConfigCrc data = uint (NOT (crc_register data) AND 0xFFFF)"

text \<open>The \<open>for\<close> loop over a repeatable list: for \<open>i\<close> below
  \<open>Math.min(list.length, 4)\<close>, push the two-byte header \<open>[i, type]\<close> and the encoded
  record \<open>list[i]\<close>.\<close>

definition repeat_chunks :: "byte \<Rightarrow> ('a \<Rightarrow> bytes) \<Rightarrow> 'a list \<Rightarrow> bytes list" where
  "repeat_chunks ty enc xs =
     concat (map (\<lambda>i. [[word_of_int (int i), ty], enc (xs ! i)]) [0..<min (length xs) 4])"

definition single_chunks :: "byte \<Rightarrow> ('a \<Rightarrow> bytes) \<Rightarrow> 'a option \<Rightarrow> bytes list" where
  "single_chunks ty enc x = (case x of None \<Rightarrow> [] | Some r \<Rightarrow> [[0, ty], enc r])"

definition config_chunks :: "GlobalConfig \<Rightarrow> bytes list" where
  "config_chunks config =
     [[0x00, 0x00, word_of_int (version config)]]
     @ single_chunks PACKET_TYPE_SYSTEM serializeSystemConfig (system config)
     @ single_chunks PACKET_TYPE_MANUFACTURER serializeManufacturerData (manufacturer config)
     @ single_chunks PACKET_TYPE_POWER serializePowerOption (power_option config)
     @ repeat_chunks PACKET_TYPE_DISPLAY serializeDisplayConfig (displays config)
     @ repeat_chunks PACKET_TYPE_LED serializeLedConfig (leds config)
     @ repeat_chunks PACKET_TYPE_SENSOR serializeSensorData (sensors config)
     @ repeat_chunks PACKET_TYPE_DATABUS serializeDataBus (dataBuses config)
     @ repeat_chunks PACKET_TYPE_BINARY_INPUT serializeBinaryInputs (binaryInputs config)"

definition serializeConfig :: "GlobalConfig \<Rightarrow> error + bytes" where
  "serializeConfig config =
     (let chunks = config_chunks config;
          totalDataSize = sum_list (map length chunks)
      in if totalDataSize + 2 > 4096 then Inl Error
         else let packetData = concat chunks;
                  crc16 = calculateConfigCrc packetData
              in Inr (packetData @ setUint16_le crc16))"

section \<open>TLV parser (protocol/config-parser.ts)\<close>

definition getPacketSize :: "byte \<Rightarrow> nat option" where
  "getPacketSize packetType =
     (if packetType = PACKET_TYPE_SYSTEM then Some 22
      else if packetType = PACKET_TYPE_MANUFACTURER then Some 22
      else if packetType = PACKET_TYPE_POWER then Some 30
      else if packetType = PACKET_TYPE_DISPLAY then Some 46
      else if packetType = PACKET_TYPE_LED then Some 22
      else if packetType = PACKET_TYPE_SENSOR then Some 30
      else if packetType = PACKET_TYPE_DATABUS then Some 30
      else if packetType = PACKET_TYPE_BINARY_INPUT then Some 30
      else None)"

text \<open>
  The \<open>Map<string, Uint8Array>\<close> of the walker, in insertion order. Its key
  \<open>`${packetType}-${packetNumber}`\<close> determines and is determined by the pair
  (type, number). \<open>Map.set\<close> on a present key replaces the value where the key
  stands; on a new key it appends.
\<close>

type_synonym packets = "((byte \<times> byte) \<times> bytes) list"

fun Map_set :: "byte \<times> byte \<Rightarrow> bytes \<Rightarrow> packets \<Rightarrow> packets" where
  "Map_set k v [] = [(k, v)]"
| "Map_set k v (p # ps) = (if fst p = k then (k, v) # ps else p # Map_set k v ps)"

function tlv_walk :: "bytes \<Rightarrow> nat \<Rightarrow> packets \<Rightarrow> error + packets" where
  "tlv_walk data offset packets =
     (if int offset < int (length data) - 1 then
        if offset + 2 > length data then Inr packets
        else
          let packetNumber = data ! offset;
              packetType = data ! (offset + 1);
              offset2 = offset + 2
          in case getPacketSize packetType of
               None \<Rightarrow> Inr packets
             | Some packetSize \<Rightarrow>
                 if offset2 + packetSize > length data then Inl ConfigParseError
                 else tlv_walk data (offset2 + packetSize)
                        (Map_set (packetType, packetNumber)
                           (slice data offset2 (offset2 + packetSize)) packets)
      else Inr packets)"
  by pat_completeness auto
termination
  by (relation "measure (\<lambda>(data, offset, packets). length data - offset)") auto

declare tlv_walk.simps [simp del]

definition parseSystemConfig :: "bytes \<Rightarrow> error + SystemConfig" where
  "parseSystemConfig d = (if length d < 22 then Inl ConfigParseError else SystemConfig_fromBytes d)"

definition parseManufacturerData :: "bytes \<Rightarrow> error + ManufacturerData" where
  "parseManufacturerData d =
     (if length d < 22 then Inl ConfigParseError else ManufacturerData_fromBytes d)"

definition parsePowerOption :: "bytes \<Rightarrow> error + PowerOption" where
  "parsePowerOption d = (if length d < 30 then Inl ConfigParseError else PowerOption_fromBytes d)"

definition parseDisplayConfig :: "bytes \<Rightarrow> error + DisplayConfig" where
  "parseDisplayConfig d =
     (if length d < 46 then Inl ConfigParseError else DisplayConfig_fromBytes d)"

definition parseLedConfig :: "bytes \<Rightarrow> error + LedConfig" where
  "parseLedConfig d = (if length d < 22 then Inl ConfigParseError else LedConfig_fromBytes d)"

definition parseSensorData :: "bytes \<Rightarrow> error + SensorData" where
  "parseSensorData d = (if length d < 30 then Inl ConfigParseError else SensorData_fromBytes d)"

definition parseDataBus :: "bytes \<Rightarrow> error + DataBus" where
  "parseDataBus d = (if length d < 30 then Inl ConfigParseError else DataBus_fromBytes d)"

definition parseBinaryInputs :: "bytes \<Rightarrow> error + BinaryInputs" where
  "parseBinaryInputs d =
     (if length d < 30 then Inl ConfigParseError else BinaryInputs_fromBytes d)"

text \<open>The second pass over the map, in insertion order: the \<open>switch\<close> on the packet
  type. The accumulator holds the eight result variables.\<close>

definition collect_packet :: "(byte \<times> byte) \<times> bytes \<Rightarrow> GlobalConfig \<Rightarrow> error + GlobalConfig" where
  "collect_packet p g =
     (let packetType = fst (fst p); packetData = snd p in
      if packetType = PACKET_TYPE_SYSTEM then
        map_sum id (\<lambda>r. g\<lparr>system := Some r\<rparr>) (parseSystemConfig packetData)
      else if packetType = PACKET_TYPE_MANUFACTURER then
        map_sum id (\<lambda>r. g\<lparr>manufacturer := Some r\<rparr>) (parseManufacturerData packetData)
      else if packetType = PACKET_TYPE_POWER then
        map_sum id (\<lambda>r. g\<lparr>power_option := Some r\<rparr>) (parsePowerOption packetData)
      else if packetType = PACKET_TYPE_DISPLAY then
        map_sum id (\<lambda>r. g\<lparr>displays := displays g @ [r]\<rparr>) (parseDisplayConfig packetData)
      else if packetType = PACKET_TYPE_LED then
        map_sum id (\<lambda>r. g\<lparr>leds := leds g @ [r]\<rparr>) (parseLedConfig packetData)
      else if packetType = PACKET_TYPE_SENSOR then
        map_sum id (\<lambda>r. g\<lparr>sensors := sensors g @ [r]\<rparr>) (parseSensorData packetData)
      else if packetType = PACKET_TYPE_DATABUS then
        map_sum id (\<lambda>r. g\<lparr>dataBuses := dataBuses g @ [r]\<rparr>) (parseDataBus packetData)
      else if packetType = PACKET_TYPE_BINARY_INPUT then
        map_sum id (\<lambda>r. g\<lparr>binaryInputs := binaryInputs g @ [r]\<rparr>)
          (parseBinaryInputs packetData)
      else Inr g)"

fun collect_packets :: "packets \<Rightarrow> GlobalConfig \<Rightarrow> error + GlobalConfig" where
  "collect_packets [] g = Inr g"
| "collect_packets (p # ps) g =
     (case collect_packet p g of Inl e \<Rightarrow> Inl e | Inr g2 \<Rightarrow> collect_packets ps g2)"

definition empty_config :: "int \<Rightarrow> GlobalConfig" where
  "empty_config v =
     \<lparr>system = None, manufacturer = None, power_option = None, displays = [], leds = [],
      sensors = [], dataBuses = [], binaryInputs = [], version = v, minorVersion = 1,
      loaded = True\<rparr>"

definition parseTlvConfig :: "bytes \<Rightarrow> int \<Rightarrow> error + GlobalConfig" where
  "parseTlvConfig data v =
     (if length data < 2 then Inl ConfigParseError
      else case tlv_walk data 0 [] of
             Inl e \<Rightarrow> Inl e
           | Inr packets \<Rightarrow> collect_packets packets (empty_config v))"

definition parseConfigResponse :: "bytes \<Rightarrow> error + GlobalConfig" where
  "parseConfigResponse rawData =
     (if length rawData < 5 then Inl ConfigParseError
      else
        let configVersion = getUint8 rawData 2;
            packetData = (if length rawData > 5 then slice rawData 3 (length rawData - 2)
                          else drop 3 rawData)
        in parseTlvConfig packetData configVersion)"

section \<open>Protocol constants (protocol/constants.ts)\<close>

definition RESPONSE_HIGH_BIT_FLAG :: int where "RESPONSE_HIGH_BIT_FLAG = 0x8000"
definition CHUNK_SIZE :: nat where "CHUNK_SIZE = 230"
definition CONFIG_CHUNK_SIZE :: nat where "CONFIG_CHUNK_SIZE = 200"
definition MAX_COMPRESSED_SIZE :: nat where "MAX_COMPRESSED_SIZE = 50 * 1024"
definition MAX_START_PAYLOAD :: nat where "MAX_START_PAYLOAD = 200"

definition READ_CONFIG :: int where "READ_CONFIG = 0x0040"
definition WRITE_CONFIG :: int where "WRITE_CONFIG = 0x0041"
definition WRITE_CONFIG_CHUNK :: int where "WRITE_CONFIG_CHUNK = 0x0042"
definition READ_FW_VERSION :: int where "READ_FW_VERSION = 0x0043"
definition REBOOT :: int where "REBOOT = 0x000f"
definition DIRECT_WRITE_START :: int where "DIRECT_WRITE_START = 0x0070"
definition DIRECT_WRITE_DATA :: int where "DIRECT_WRITE_DATA = 0x0071"
definition DIRECT_WRITE_END :: int where "DIRECT_WRITE_END = 0x0072"

text \<open>
  The enum object \<open>CommandCode\<close> as a whole: the eight members that constants.ts
  declares. Reading a member that the enum does not declare yields \<open>undefined\<close>,
  here \<open>None\<close>; a strict comparison \<open>x === CommandCode.M\<close> of a number \<open>x\<close> is
  \<open>CommandCode ''M'' = Some x\<close>.
\<close>

definition CommandCode :: "string \<Rightarrow> int option" where
  "CommandCode = map_of
     [(''READ_CONFIG'', READ_CONFIG),
      (''WRITE_CONFIG'', WRITE_CONFIG),
      (''WRITE_CONFIG_CHUNK'', WRITE_CONFIG_CHUNK),
      (''READ_FW_VERSION'', READ_FW_VERSION),
      (''REBOOT'', REBOOT),
      (''DIRECT_WRITE_START'', DIRECT_WRITE_START),
      (''DIRECT_WRITE_DATA'', DIRECT_WRITE_DATA),
      (''DIRECT_WRITE_END'', DIRECT_WRITE_END)]"

section \<open>Command builders (protocol/commands.ts)\<close>

definition buildReadConfigCommand :: bytes where
  "buildReadConfigCommand = setUint16_be READ_CONFIG"

definition buildReadFwVersionCommand :: bytes where
  "buildReadFwVersionCommand = setUint16_be READ_FW_VERSION"

definition buildRebootCommand :: bytes where
  "buildRebootCommand = setUint16_be REBOOT"

definition buildDirectWriteStartCompressed :: "int \<Rightarrow> bytes \<Rightarrow> bytes \<times> bytes" where
  "buildDirectWriteStartCompressed uncompressedSize compressedData =
     (let maxDataInStart = MAX_START_PAYLOAD - 6
      in (setUint16_be DIRECT_WRITE_START @ setUint32_le uncompressedSize
            @ take maxDataInStart compressedData,
          if length compressedData \<le> maxDataInStart then []
          else drop maxDataInStart compressedData))"

definition buildDirectWriteStartUncompressed :: bytes where
  "buildDirectWriteStartUncompressed = setUint16_be DIRECT_WRITE_START"

definition buildDirectWriteDataCommand :: "bytes \<Rightarrow> error + bytes" where
  "buildDirectWriteDataCommand chunkData =
     (if length chunkData > CHUNK_SIZE then Inl Error
      else Inr (setUint16_be DIRECT_WRITE_DATA @ chunkData))"

definition buildDirectWriteEndCommand :: "int \<Rightarrow> bytes" where
  "buildDirectWriteEndCommand refreshMode = setUint16_be DIRECT_WRITE_END @ setUint8 refreshMode"

text \<open>The \<open>while (offset < configLen)\<close> loop of \<open>buildWriteConfigCommand\<close>; \<open>chunks\<close>
  is the array built so far.\<close>

function config_chunk_loop :: "bytes \<Rightarrow> nat \<Rightarrow> bytes list \<Rightarrow> bytes list" where
  "config_chunk_loop configData offset chunks =
     (if offset < length configData then
        let chunkSize = min CONFIG_CHUNK_SIZE (length configData - offset);
            chunk = setUint16_be WRITE_CONFIG_CHUNK
                      @ take chunkSize (drop offset configData)
        in config_chunk_loop configData (offset + chunkSize) (chunks @ [chunk])
      else chunks)"
  by pat_completeness auto
termination
  by (relation "measure (\<lambda>(configData, offset, chunks). length configData - offset)")
     (auto simp: CONFIG_CHUNK_SIZE_def)

declare config_chunk_loop.simps [simp del]

definition buildWriteConfigCommand :: "bytes \<Rightarrow> bytes \<times> bytes list" where
  "buildWriteConfigCommand configData =
     (let configLen = length configData in
      if configLen \<le> CONFIG_CHUNK_SIZE then (setUint16_be WRITE_CONFIG @ configData, [])
      else
        let firstChunkDataSize = CONFIG_CHUNK_SIZE - 2;
            firstCommand = setUint16_be WRITE_CONFIG @ setUint16_le (int configLen)
                             @ take firstChunkDataSize configData
        in (firstCommand, config_chunk_loop configData firstChunkDataSize []))"

section \<open>Response interpreter (protocol/responses.ts)\<close>

text \<open>\<open>unpackCommandCode\<close> builds a two-byte \<open>DataView\<close> at the offset, which raises a
  \<open>RangeError\<close> when the array ends before.\<close>

definition unpackCommandCode :: "bytes \<Rightarrow> nat \<Rightarrow> error + int" where
  "unpackCommandCode d off =
     (if off + 2 > length d then Inl RangeError else Inr (getUint16_be d off))"

definition stripCommandEcho :: "bytes \<Rightarrow> int \<Rightarrow> bytes" where
  "stripCommandEcho d expectedCmd =
     (if length d \<ge> 2 then
        let echo = getUint16_be d 0 in
        if echo = expectedCmd \<or> echo = (expectedCmd OR RESPONSE_HIGH_BIT_FLAG) then drop 2 d
        else d
      else d)"

definition checkResponseType :: "bytes \<Rightarrow> error + (int \<times> bool)" where
  "checkResponseType response =
     (case unpackCommandCode response 0 of
        Inl e \<Rightarrow> Inl e
      | Inr code \<Rightarrow>
          Inr (code AND NOT RESPONSE_HIGH_BIT_FLAG, code AND RESPONSE_HIGH_BIT_FLAG \<noteq> 0))"

definition validateAckResponse :: "bytes \<Rightarrow> int \<Rightarrow> error + unit" where
  "validateAckResponse d expectedCommand =
     (if length d < 2 then Inl InvalidResponseError
      else
        let responseCode = getUint16_be d 0 in
        if responseCode = expectedCommand
           \<or> responseCode = (expectedCommand OR RESPONSE_HIGH_BIT_FLAG)
        then Inr ()
        else Inl InvalidResponseError)"

record FirmwareVersion =
  major :: int
  minor :: int
  sha :: bytes

definition parseFirmwareVersion :: "bytes \<Rightarrow> error + FirmwareVersion" where
  "parseFirmwareVersion d =
     (if length d < 5 then Inl InvalidResponseError
      else
        let echo = getUint16_be d 0 in
        if echo \<noteq> 0x0043 \<and> echo \<noteq> (0x0043 OR RESPONSE_HIGH_BIT_FLAG)
        then Inl InvalidResponseError
        else
          let shaLength = nat (uint (d ! 4)) in
          if shaLength = 0 then Inl InvalidResponseError
          else if length d < 5 + shaLength then Inl InvalidResponseError
          else Inr \<lparr>major = uint (d ! 2), minor = uint (d ! 3),
                    sha = slice d 5 (5 + shaLength)\<rparr>)"

section \<open>The device operations (device.ts)\<close>

text \<open>
  The orchestrators are sequential: each \<open>await\<close> finishes before the next statement
  runs. The transport is their environment. \<open>responses\<close> lists, in order, what each
  later call of \<open>readResponse\<close> will yield: a notification frame, or the error it
  raises (\<open>BLETimeoutError\<close> when its timer expires, \<open>BLEConnectionError\<close> when the
  link is down); once the list is used up no notification arrives any more and every
  wait times out. \<open>written\<close> records the frames passed to \<open>writeCommand\<close>, which
  succeeds while the link is up; \<open>waits\<close> records the timeout of every
  \<open>readResponse\<close> call; \<open>events\<close> records the callbacks invoked (their
  timing arguments are wall-clock readings and are left out).
\<close>

datatype status = Refreshing_display | Upload_complete_refreshing | Refresh_complete

datatype event =
    OnProgress int int
  | OnStatusChange status
  | OnUploadComplete
  | OnComplete

record io =
  responses :: "(error + bytes) list"
  written :: "bytes list"
  waits :: "int list"
  events :: "event list"

definition TIMEOUT_FIRST_CHUNK :: int where "TIMEOUT_FIRST_CHUNK = 10000"
definition TIMEOUT_CHUNK :: int where "TIMEOUT_CHUNK = 2000"
definition TIMEOUT_ACK :: int where "TIMEOUT_ACK = 5000"
definition TIMEOUT_REFRESH :: int where "TIMEOUT_REFRESH = 90000"

definition writeCommand :: "bytes \<Rightarrow> io \<Rightarrow> io" where
  "writeCommand cmd st = st\<lparr>written := written st @ [cmd]\<rparr>"

definition readResponse :: "int \<Rightarrow> io \<Rightarrow> (error + bytes) \<times> io" where
  "readResponse timeoutMs st =
     (case responses st of
        [] \<Rightarrow> (Inl BLETimeoutError, st\<lparr>waits := waits st @ [timeoutMs]\<rparr>)
      | r # rs \<Rightarrow> (r, st\<lparr>responses := rs, waits := waits st @ [timeoutMs]\<rparr>))"

definition emit :: "event \<Rightarrow> io \<Rightarrow> io" where
  "emit e st = st\<lparr>events := events st @ [e]\<rparr>"

subsection \<open>interrogate\<close>

text \<open>The loop \<open>while (currentLength < totalLength)\<close>; \<open>tlvData\<close> is the array of
  payload slices collected so far.\<close>

function read_remaining_chunks ::
  "int \<Rightarrow> int \<Rightarrow> bytes list \<Rightarrow> io \<Rightarrow> (error + (int \<times> bytes list)) \<times> io" where
  "read_remaining_chunks totalLength currentLength tlvData st =
     (if currentLength < totalLength then
        case readResponse TIMEOUT_CHUNK st of
          (Inl e, st2) \<Rightarrow> (Inl e, st2)
        | (Inr nextResponse, st2) \<Rightarrow>
            let nextChunkData = stripCommandEcho nextResponse READ_CONFIG
            in read_remaining_chunks totalLength
                 (currentLength + (int (length nextChunkData) - 2))
                 (tlvData @ [drop 2 nextChunkData]) st2
      else (Inr (currentLength, tlvData), st))"
  by pat_completeness auto
termination
  by (relation "measure (\<lambda>(totalLength, currentLength, tlvData, st). length (responses st))")
     (auto simp: readResponse_def split: list.splits)

declare read_remaining_chunks.simps [simp del]

text \<open>\<open>new Uint8Array(currentLength)\<close> followed by the copy loop
  \<open>completeData.set(chunk, offset)\<close>, which raises a \<open>RangeError\<close> when a chunk does
  not fit in what is left of the buffer.\<close>

fun copy_chunks :: "nat \<Rightarrow> bytes list \<Rightarrow> nat \<Rightarrow> error + bytes" where
  "copy_chunks len [] offset = Inr (replicate (len - offset) 0)"
| "copy_chunks len (chunk # rest) offset =
     (if offset + length chunk > len then Inl RangeError
      else map_sum id (\<lambda>tail. chunk @ tail) (copy_chunks len rest (offset + length chunk)))"

definition concatenate_chunks :: "int \<Rightarrow> bytes list \<Rightarrow> error + bytes" where
  "concatenate_chunks currentLength tlvData =
     (if currentLength < 0 then Inl RangeError
      else copy_chunks (nat currentLength) tlvData 0)"

text \<open>The part of \<open>interrogate\<close> before the parser is called: it yields
  \<open>completeData\<close>. The \<open>DataView\<close> over the first chunk raises a \<open>RangeError\<close>
  when the two bytes at offset 2 are not there.\<close>

definition interrogate_read :: "io \<Rightarrow> (error + bytes) \<times> io" where
  "interrogate_read st =
     (let st1 = writeCommand buildReadConfigCommand st in
      case readResponse TIMEOUT_FIRST_CHUNK st1 of
        (Inl e, st2) \<Rightarrow> (Inl e, st2)
      | (Inr response, st2) \<Rightarrow>
          let chunkData = stripCommandEcho response READ_CONFIG in
          if length chunkData < 4 then (Inl RangeError, st2)
          else
            (let totalLength = getUint16_le chunkData 2 in
             (case read_remaining_chunks totalLength (int (length chunkData) - 4)
                     [drop 4 chunkData] st2 of
                (Inl e, st3) \<Rightarrow> (Inl e, st3)
              | (Inr (currentLength, tlvData), st3) \<Rightarrow>
                  (concatenate_chunks currentLength tlvData, st3))))"

definition interrogate :: "io \<Rightarrow> (error + GlobalConfig) \<times> io" where
  "interrogate st =
     (case interrogate_read st of
        (Inl e, st2) \<Rightarrow> (Inl e, st2)
      | (Inr completeData, st2) \<Rightarrow>
          (case parseConfigResponse completeData of
             Inl e \<Rightarrow> (Inl e, st2)
           | Inr config \<Rightarrow>
               if displays config = [] then (Inl Error, st2) else (Inr config, st2)))"

subsection \<open>readFirmwareVersion, reboot, writeConfig\<close>

definition readFirmwareVersion :: "io \<Rightarrow> (error + FirmwareVersion) \<times> io" where
  "readFirmwareVersion st =
     (let st1 = writeCommand buildReadFwVersionCommand st in
      case readResponse TIMEOUT_ACK st1 of
        (Inl e, st2) \<Rightarrow> (Inl e, st2)
      | (Inr response, st2) \<Rightarrow> (parseFirmwareVersion response, st2))"

definition reboot :: "io \<Rightarrow> (error + unit) \<times> io" where
  "reboot st = (Inr (), writeCommand buildRebootCommand st)"

fun send_config_chunks :: "bytes list \<Rightarrow> io \<Rightarrow> (error + unit) \<times> io" where
  "send_config_chunks [] st = (Inr (), st)"
| "send_config_chunks (chunkCmd # rest) st =
     (let st1 = writeCommand chunkCmd st in
      case readResponse TIMEOUT_ACK st1 of
        (Inl e, st2) \<Rightarrow> (Inl e, st2)
      | (Inr response, st2) \<Rightarrow>
          (case validateAckResponse response WRITE_CONFIG_CHUNK of
             Inl e \<Rightarrow> (Inl e, st2)
           | Inr u \<Rightarrow> send_config_chunks rest st2))"

definition writeConfig :: "GlobalConfig \<Rightarrow> io \<Rightarrow> (error + unit) \<times> io" where
  "writeConfig config st =
     (if displays config = [] then (Inl Error, st)
      else case serializeConfig config of
        Inl e \<Rightarrow> (Inl e, st)
      | Inr configData \<Rightarrow>
          let (firstCmd, chunkCmds) = buildWriteConfigCommand configData;
              st1 = writeCommand firstCmd st
          in (case readResponse TIMEOUT_ACK st1 of
                (Inl e, st2) \<Rightarrow> (Inl e, st2)
              | (Inr response, st2) \<Rightarrow>
                  (case validateAckResponse response WRITE_CONFIG of
                     Inl e \<Rightarrow> (Inl e, st2)
                   | Inr u \<Rightarrow> send_config_chunks chunkCmds st2)))"

subsection \<open>Image upload: sendDataChunks and executeUpload\<close>

text \<open>The \<open>try\<close>/\<open>catch\<close> around the per-chunk wait of \<open>sendDataChunks\<close>: a
  \<open>BLETimeoutError\<close> is caught and answered by a second wait with
  \<open>TIMEOUT_REFRESH\<close>; any other error is thrown again.\<close>

definition await_chunk_response :: "io \<Rightarrow> (error + bytes) \<times> io" where
  "await_chunk_response st =
     (case readResponse TIMEOUT_ACK st of
        (Inl e, st2) \<Rightarrow>
          if e = BLETimeoutError
          then readResponse TIMEOUT_REFRESH (emit (OnStatusChange Refreshing_display) st2)
          else (Inl e, st2)
      | (Inr response, st2) \<Rightarrow> (Inr response, st2))"

function sendDataChunks_loop :: "bytes \<Rightarrow> nat \<Rightarrow> io \<Rightarrow> (error + bool) \<times> io" where
  "sendDataChunks_loop imageData bytesSent st =
     (if bytesSent < length imageData then
        let chunkStart = bytesSent;
            chunkEnd = min (chunkStart + CHUNK_SIZE) (length imageData);
            chunkData = take (chunkEnd - chunkStart) (drop chunkStart imageData)
        in case buildDirectWriteDataCommand chunkData of
             Inl e \<Rightarrow> (Inl e, st)
           | Inr dataCmd \<Rightarrow>
               (case await_chunk_response (writeCommand dataCmd st) of
                  (Inl e, st2) \<Rightarrow> (Inl e, st2)
                | (Inr response, st2) \<Rightarrow>
                    (case checkResponseType response of
                       Inl e \<Rightarrow> (Inl e, st2)
                     | Inr (command, isAck) \<Rightarrow>
                         if command = DIRECT_WRITE_DATA then
                           sendDataChunks_loop imageData (bytesSent + length chunkData)
                             (emit (OnProgress (int (bytesSent + length chunkData))
                                      (int (length imageData))) st2)
                         else if command = DIRECT_WRITE_END then
                           (Inr True,
                            emit (OnProgress (int (length imageData)) (int (length imageData)))
                              st2)
                         else (Inl ProtocolError, st2)))
      else (Inr False, st))"
  by pat_completeness auto
termination
  by (relation "measure (\<lambda>(imageData, bytesSent, st). length imageData - bytesSent)")
     (auto simp: CHUNK_SIZE_def)

declare sendDataChunks_loop.simps [simp del]

definition sendDataChunks :: "bytes \<Rightarrow> io \<Rightarrow> (error + bool) \<times> io" where
  "sendDataChunks imageData st = sendDataChunks_loop imageData 0 st"

text \<open>
  The wait for the refresh notification, which \<open>executeUpload\<close> spells out twice
  with the same text, once after the END acknowledgement and once after
  auto-completion. The two members it compares the response code with are read from
  the enum object.
\<close>

definition await_refresh :: "io \<Rightarrow> (error + unit) \<times> io" where
  "await_refresh st =
     (case readResponse TIMEOUT_REFRESH st of
        (Inl e, st2) \<Rightarrow> (Inl e, st2)
      | (Inr refreshResponse, st2) \<Rightarrow>
          (case checkResponseType refreshResponse of
             Inl e \<Rightarrow> (Inl e, st2)
           | Inr (responseCode, isAck) \<Rightarrow>
               if CommandCode ''REFRESH_COMPLETE'' = Some responseCode then
                 (Inr (), emit OnComplete (emit (OnStatusChange Refresh_complete) st2))
               else if CommandCode ''REFRESH_TIMEOUT'' = Some responseCode then
                 (Inl ProtocolError, st2)
               else (Inl ProtocolError, st2)))"

record upload_params =
  imageData :: bytes
  refreshMode :: int
  useCompression :: bool
  compressedData :: "bytes option"
  uncompressedSize :: "int option"

text \<open>The test \<open>useCompression && compressedData && uncompressedSize\<close>: an array is
  truthy when it is there, a number when it is there and not zero.\<close>

definition compressed_start :: "upload_params \<Rightarrow> (int \<times> bytes) option" where
  "compressed_start p =
     (if useCompression p then
        (case (compressedData p, uncompressedSize p) of
           (Some d, Some n) \<Rightarrow> if n \<noteq> 0 then Some (n, d) else None
         | _ \<Rightarrow> None)
      else None)"

definition send_upload_data :: "upload_params \<Rightarrow> bytes option \<Rightarrow> io \<Rightarrow> (error + bool) \<times> io" where
  "send_upload_data p remainingCompressed st =
     (if useCompression p \<and> remainingCompressed \<noteq> None \<and> remainingCompressed \<noteq> Some []
      then sendDataChunks (case remainingCompressed of Some r \<Rightarrow> r | None \<Rightarrow> []) st
      else if \<not> useCompression p then sendDataChunks (imageData p) st
      else (Inr False, st))"

definition finish_upload :: "upload_params \<Rightarrow> bool \<Rightarrow> io \<Rightarrow> (error + unit) \<times> io" where
  "finish_upload p autoCompleted st =
     (if \<not> autoCompleted then
        (let st1 = writeCommand (buildDirectWriteEndCommand (refreshMode p)) st in
         case readResponse TIMEOUT_ACK st1 of
           (Inl e, st2) \<Rightarrow> (Inl e, st2)
         | (Inr response, st2) \<Rightarrow>
             (case validateAckResponse response DIRECT_WRITE_END of
                Inl e \<Rightarrow> (Inl e, st2)
              | Inr u \<Rightarrow>
                  await_refresh
                    (emit (OnStatusChange Upload_complete_refreshing)
                       (emit OnUploadComplete st2))))
      else
        await_refresh
          (emit (OnStatusChange Upload_complete_refreshing) (emit OnUploadComplete st)))"

definition executeUpload :: "upload_params \<Rightarrow> io \<Rightarrow> (error + unit) \<times> io" where
  "executeUpload p st =
     (let (startCmd, remainingCompressed) =
            (case compressed_start p of
               Some (n, d) \<Rightarrow>
                 (fst (buildDirectWriteStartCompressed n d),
                  Some (snd (buildDirectWriteStartCompressed n d)))
             | None \<Rightarrow> (buildDirectWriteStartUncompressed, None));
          st1 = writeCommand startCmd st
      in (case readResponse TIMEOUT_ACK st1 of
            (Inl e, st2) \<Rightarrow> (Inl e, st2)
          | (Inr response, st2) \<Rightarrow>
              (case validateAckResponse response DIRECT_WRITE_START of
                 Inl e \<Rightarrow> (Inl e, st2)
               | Inr u \<Rightarrow>
                   (case send_upload_data p remainingCompressed st2 of
                      (Inl e, st3) \<Rightarrow> (Inl e, st3)
                    | (Inr autoCompleted, st3) \<Rightarrow> finish_upload p autoCompleted st3))))"

section \<open>Vocabulary for the statements about the TLV stream\<close>

text \<open>The bytes of one packet record: sequence number, type id, payload.\<close>

definition packet_bytes :: "(byte \<times> byte) \<times> bytes \<Rightarrow> bytes" where
  "packet_bytes p = [snd (fst p), fst (fst p)] @ snd p"

text \<open>A packet is well formed when its type is in the size table and its payload has
  the size the table gives.\<close>

definition valid_packet :: "(byte \<times> byte) \<times> bytes \<Rightarrow> bool" where
  "valid_packet p \<longleftrightarrow> getPacketSize (fst (fst p)) = Some (length (snd p))"

text \<open>The map after the walker has stored the packets \<open>ps\<close> in turn.\<close>

definition store_packets :: "packets \<Rightarrow> packets \<Rightarrow> packets" where
  "store_packets m ps = foldl (\<lambda>m p. Map_set (fst p) (snd p) m) m ps"

section \<open>Vocabulary for the statements about the upload\<close>

text \<open>The command code that the dispatch of \<open>sendDataChunks\<close> sees in a response.\<close>

definition response_command :: "bytes \<Rightarrow> error + int" where
  "response_command f = map_sum id fst (checkResponseType f)"

text \<open>The data command for the chunk that starts at byte \<open>k * CHUNK_SIZE\<close>.\<close>

definition chunk_frame :: "bytes \<Rightarrow> nat \<Rightarrow> bytes" where
  "chunk_frame payload k =
     setUint16_be DIRECT_WRITE_DATA @ take CHUNK_SIZE (drop (k * CHUNK_SIZE) payload)"

text \<open>The start frame that \<open>executeUpload\<close> writes, and the bytes it hands to
  \<open>sendDataChunks\<close> (none when the compressed data fits the start frame).\<close>

definition start_frame :: "upload_params \<Rightarrow> bytes" where
  "start_frame p =
     (case compressed_start p of
        Some (n, d) \<Rightarrow> fst (buildDirectWriteStartCompressed n d)
      | None \<Rightarrow> buildDirectWriteStartUncompressed)"

definition chunked_payload :: "upload_params \<Rightarrow> bytes" where
  "chunked_payload p =
     (if useCompression p then
        (case compressed_start p of
           Some (n, d) \<Rightarrow> snd (buildDirectWriteStartCompressed n d)
         | None \<Rightarrow> [])
      else imageData p)"

text \<open>
  An operation started in a state whose pending outcomes are the frames \<open>fs\<close>, then
  the error \<open>e\<close>, then \<open>rest\<close>, stops at the error: either it ends before it has
  read \<open>e\<close>, or it reads \<open>e\<close>, returns \<open>e\<close> and reads nothing after it.
\<close>

definition stops_at_error ::
  "bytes list \<Rightarrow> error \<Rightarrow> (error + bytes) list \<Rightarrow> (error + 'a) \<times> io \<Rightarrow> bool" where
  "stops_at_error fs e rest res \<longleftrightarrow>
     (\<exists>k \<le> length fs. responses (snd res) = map Inr (drop k fs) @ Inl e # rest)
     \<or> (fst res = Inl e \<and> responses (snd res) = rest)"

section \<open>Vocabulary for the statements about what an operation writes and waits for\<close>

text \<open>The outcome of wait number \<open>i\<close>, counted from 0, of an operation that starts in
  \<open>st\<close>: what \<open>readResponse\<close> yields then.\<close>

definition pending :: "io \<Rightarrow> nat \<Rightarrow> error + bytes" where
  "pending st i = (if i < length (responses st) then responses st ! i else Inl BLETimeoutError)"

text \<open>Between \<open>st\<close> and \<open>st2\<close> exactly the frames \<open>ws\<close> were written, in this order,
  and exactly the waits with the timeouts \<open>ts\<close> were made, in this order, each taking
  the next outcome.\<close>

definition performed :: "io \<Rightarrow> io \<Rightarrow> bytes list \<Rightarrow> int list \<Rightarrow> bool" where
  "performed st st2 ws ts \<longleftrightarrow>
     written st2 = written st @ ws \<and> waits st2 = waits st @ ts
     \<and> responses st2 = drop (length ts) (responses st)"

text \<open>One exchange: the outcome of the wait, and for a frame the verdict of the check
  on it.\<close>

definition exchange :: "(bytes \<Rightarrow> error + 'a) \<Rightarrow> error + bytes \<Rightarrow> error + 'a" where
  "exchange check r = (case r of Inl e \<Rightarrow> Inl e | Inr f \<Rightarrow> check f)"

text \<open>The frames of a configuration write in the order of sending, and the check that
  the acknowledgement of frame number \<open>i\<close> has to pass.\<close>

definition config_frames :: "bytes \<Rightarrow> bytes list" where
  "config_frames configData =
     fst (buildWriteConfigCommand configData) # snd (buildWriteConfigCommand configData)"

definition config_ack :: "nat \<Rightarrow> bytes \<Rightarrow> error + unit" where
  "config_ack i f = validateAckResponse f (if i = 0 then WRITE_CONFIG else WRITE_CONFIG_CHUNK)"

text \<open>
  For a configuration read that starts in \<open>st\<close>: the first response with its echo
  stripped, the total length it announces, and the payload length counted once the
  first response and \<open>n\<close> further ones have been taken in.
\<close>

definition first_chunk :: "io \<Rightarrow> bytes" where
  "first_chunk st = (case pending st 0 of Inl e \<Rightarrow> [] | Inr f \<Rightarrow> stripCommandEcho f READ_CONFIG)"

definition announced :: "io \<Rightarrow> int" where
  "announced st = getUint16_le (first_chunk st) 2"

definition continuation_payload :: "error + bytes \<Rightarrow> int" where
  "continuation_payload r =
     (case r of Inl e \<Rightarrow> 0 | Inr f \<Rightarrow> int (length (stripCommandEcho f READ_CONFIG)) - 2)"

definition received :: "io \<Rightarrow> nat \<Rightarrow> int" where
  "received st n =
     int (length (first_chunk st)) - 4
     + sum_list (take n (map continuation_payload (tl (responses st))))"

section \<open>Vocabulary for the statements about the checksum\<close>

text \<open>
  Running the inner loop body \<open>n\<close> times from the register \<open>s\<close>, giving up as soon
  as the low 16 bits of the register are all zero: the final register, or \<open>None\<close>.
\<close>

fun low16_orbit :: "nat \<Rightarrow> 32 word \<Rightarrow> 32 word option" where
  "low16_orbit 0 s = Some s"
| "low16_orbit (Suc n) s = (if s AND 0xFFFF = 0 then None else low16_orbit n (crc_bit s))"

section \<open>Vocabulary for the statements about the serialized configuration\<close>

text \<open>The packet of a record that occurs at most once, when it is there: sequence
  number 0, type id, encoded record.\<close>

definition optional_packet :: "byte \<Rightarrow> ('a \<Rightarrow> bytes) \<Rightarrow> 'a option \<Rightarrow> bytes" where
  "optional_packet ty enc x = (case x of None \<Rightarrow> [] | Some r \<Rightarrow> [0, ty] @ enc r)"

text \<open>
  What a repeatable list is stated to contribute to the output: its first four entries,
  each as a packet tagged with its index 0 to 3, and nothing for any entry past the
  fourth.
\<close>

fun first_four_packets :: "byte \<Rightarrow> ('a \<Rightarrow> bytes) \<Rightarrow> 'a list \<Rightarrow> bytes" where
  "first_four_packets ty enc (r0 # r1 # r2 # r3 # omitted) =
     [0, ty] @ enc r0 @ [1, ty] @ enc r1 @ [2, ty] @ enc r2 @ [3, ty] @ enc r3"
| "first_four_packets ty enc [r0, r1, r2] = [0, ty] @ enc r0 @ [1, ty] @ enc r1 @ [2, ty] @ enc r2"
| "first_four_packets ty enc [r0, r1] = [0, ty] @ enc r0 @ [1, ty] @ enc r1"
| "first_four_packets ty enc [r0] = [0, ty] @ enc r0"
| "first_four_packets ty enc [] = []"

text \<open>A body followed by its checksum, low byte first.\<close>

definition with_crc :: "bytes \<Rightarrow> bytes" where
  "with_crc body = body @ setUint16_le (calculateConfigCrc body)"

section \<open>Vocabulary for the statements about the configuration round trip\<close>

text \<open>Serializing a configuration and parsing the bytes back.\<close>

definition reparse_config :: "GlobalConfig \<Rightarrow> error + GlobalConfig" where
  "reparse_config c =
     (case serializeConfig c of Inl e \<Rightarrow> Inl e | Inr raw \<Rightarrow> parseConfigResponse raw)"

text \<open>
  A configuration is well formed when every record in it has its fields in range, no
  repeatable list has more than four entries and the version fits its byte. Having at
  most one system, manufacturer and power record is built into the type.
\<close>

definition well_formed_config :: "GlobalConfig \<Rightarrow> bool" where
  "well_formed_config c \<longleftrightarrow>
     (case system c of None \<Rightarrow> True | Some r \<Rightarrow> valid_SystemConfig r)
     \<and> (case manufacturer c of None \<Rightarrow> True | Some r \<Rightarrow> valid_ManufacturerData r)
     \<and> (case power_option c of None \<Rightarrow> True | Some r \<Rightarrow> valid_PowerOption r)
     \<and> list_all valid_DisplayConfig (displays c) \<and> length (displays c) \<le> 4
     \<and> list_all valid_LedConfig (leds c) \<and> length (leds c) \<le> 4
     \<and> list_all valid_SensorData (sensors c) \<and> length (sensors c) \<le> 4
     \<and> list_all valid_DataBus (dataBuses c) \<and> length (dataBuses c) \<le> 4
     \<and> list_all valid_BinaryInputs (binaryInputs c) \<and> length (binaryInputs c) \<le> 4
     \<and> is_uint8 (version c)"

definition has_record :: "GlobalConfig \<Rightarrow> bool" where
  "has_record c \<longleftrightarrow>
     system c \<noteq> None \<or> manufacturer c \<noteq> None \<or> power_option c \<noteq> None
     \<or> displays c \<noteq> [] \<or> leds c \<noteq> [] \<or> sensors c \<noteq> [] \<or> dataBuses c \<noteq> []
     \<or> binaryInputs c \<noteq> []"

text \<open>The packets that \<open>config_chunks\<close> emits, as keys and payloads.\<close>

definition single_packets :: "byte \<Rightarrow> ('a \<Rightarrow> bytes) \<Rightarrow> 'a option \<Rightarrow> packets" where
  "single_packets ty enc x = (case x of None \<Rightarrow> [] | Some r \<Rightarrow> [((ty, 0), enc r)])"

definition repeat_packets :: "byte \<Rightarrow> ('a \<Rightarrow> bytes) \<Rightarrow> 'a list \<Rightarrow> packets" where
  "repeat_packets ty enc xs =
     map (\<lambda>i. ((ty, word_of_int (int i)), enc (xs ! i))) [0..<min (length xs) 4]"

definition config_packets :: "GlobalConfig \<Rightarrow> packets" where
  "config_packets config =
     single_packets PACKET_TYPE_SYSTEM serializeSystemConfig (system config)
     @ single_packets PACKET_TYPE_MANUFACTURER serializeManufacturerData (manufacturer config)
     @ single_packets PACKET_TYPE_POWER serializePowerOption (power_option config)
     @ repeat_packets PACKET_TYPE_DISPLAY serializeDisplayConfig (displays config)
     @ repeat_packets PACKET_TYPE_LED serializeLedConfig (leds config)
     @ repeat_packets PACKET_TYPE_SENSOR serializeSensorData (sensors config)
     @ repeat_packets PACKET_TYPE_DATABUS serializeDataBus (dataBuses config)
     @ repeat_packets PACKET_TYPE_BINARY_INPUT serializeBinaryInputs (binaryInputs config)"

section \<open>The read path as the specification words it\<close>

text \<open>
  The specification's reading of the first response of \<open>interrogate\<close>: the 2-byte
  little-endian total length stands immediately after the stripped echo, and the
  remainder of the frame is payload. Everything else is as in \<open>interrogate_read\<close>.
  This definition follows the specification, not the source; it serves only to compare
  the two.
\<close>

definition interrogate_read_as_specified :: "io \<Rightarrow> (error + bytes) \<times> io" where
  "interrogate_read_as_specified st =
     (let st1 = writeCommand buildReadConfigCommand st in
      case readResponse TIMEOUT_FIRST_CHUNK st1 of
        (Inl e, st2) \<Rightarrow> (Inl e, st2)
      | (Inr response, st2) \<Rightarrow>
          let chunkData = stripCommandEcho response READ_CONFIG in
          if length chunkData < 2 then (Inl RangeError, st2)
          else
            (let totalLength = getUint16_le chunkData 0 in
             (case read_remaining_chunks totalLength (int (length chunkData) - 2)
                     [drop 2 chunkData] st2 of
                (Inl e, st3) \<Rightarrow> (Inl e, st3)
              | (Inr (currentLength, tlvData), st3) \<Rightarrow>
                  (concatenate_chunks currentLength tlvData, st3))))"

section \<open>Sample values\<close>

text \<open>Concrete records, byte strings and configurations on which the theorems below
  are exercised.\<close>

definition sample_SystemConfig :: SystemConfig where
  "sample_SystemConfig =
     \<lparr>icType = 1, communicationModes = 3, deviceFlags = 1, pwrPin = 255,
      reserved_system = replicate 17 0\<rparr>"

definition sample_ManufacturerData :: ManufacturerData where
  "sample_ManufacturerData =
     \<lparr>manufacturerId = 0x2446, boardType = 2, boardRevision = 1,
      reserved_manufacturer = replicate 18 0xA5\<rparr>"

definition sample_PowerOption :: PowerOption where
  "sample_PowerOption =
     \<lparr>powerMode = 1, batteryCapacityMah = 70000, sleepTimeoutMs = 30000, txPower = - 8,
      sleepFlags = 0, batterySensePin = 4, batterySenseEnablePin = 255,
      batterySenseFlags = 1, capacityEstimator = 0, voltageScalingFactor = 1000,
      deepSleepCurrentUa = 3000000000, deepSleepTimeSeconds = 600,
      reserved_power = replicate 10 0\<rparr>"

definition sample_DisplayConfig :: DisplayConfig where
  "sample_DisplayConfig =
     \<lparr>instanceNumber_display = 0, displayTechnology = 1, panelIcType = 300,
      pixelWidth = 296, pixelHeight = 128, activeWidthMm = 66, activeHeightMm = 29,
      tagType = 0, rotation = 180, resetPin = 1, busyPin = 2, dcPin = 3, csPin = 4,
      dataPin = 5, partialUpdateSupport = 0, colorScheme = 1, transmissionModes = 9,
      clkPin = 6, reservedPins_display = replicate 7 0xFF,
      reserved_display = replicate 15 0\<rparr>"

definition sample_LedConfig :: LedConfig where
  "sample_LedConfig =
     \<lparr>instanceNumber_led = 0, ledType = 1, led1R = 10, led2G = 11, led3B = 12, led4 = 255,
      ledFlags = 0, reserved_led = replicate 15 0\<rparr>"

definition sample_SensorData :: SensorData where
  "sample_SensorData =
     \<lparr>instanceNumber_sensor = 0, sensorType = 513, busId = 0,
      reserved_sensor = replicate 26 0\<rparr>"

definition sample_DataBus :: DataBus where
  "sample_DataBus =
     \<lparr>instanceNumber_bus = 0, busType = 0, pin1 = 8, pin2 = 9, pin3 = 255, pin4 = 255,
      pin5 = 255, pin6 = 255, pin7 = 255, busSpeedHz = 400000, busFlags = 0,
      pullups_bus = 3, pulldowns_bus = 0, reserved_bus = replicate 14 0\<rparr>"

definition sample_BinaryInputs :: BinaryInputs where
  "sample_BinaryInputs =
     \<lparr>instanceNumber_input = 0, inputType = 1, displayAs = 0,
      reservedPins_input = replicate 8 0xFF, inputFlags = 0, invert = 0, pullups_input = 1,
      pulldowns_input = 0, reserved_input = replicate 15 0x11\<rparr>"

definition sample_config_overfull :: GlobalConfig where
  "sample_config_overfull =
     \<lparr>system = Some sample_SystemConfig, manufacturer = None,
      power_option = Some sample_PowerOption,
      displays = map (\<lambda>i. sample_DisplayConfig\<lparr>instanceNumber_display := i\<rparr>) [0, 1, 2, 3, 4],
      leds = map (\<lambda>i. sample_LedConfig\<lparr>instanceNumber_led := i\<rparr>) [0, 1, 2, 3, 4],
      sensors = map (\<lambda>i. sample_SensorData\<lparr>instanceNumber_sensor := i\<rparr>) [0, 1, 2, 3, 4, 5],
      dataBuses = map (\<lambda>i. sample_DataBus\<lparr>instanceNumber_bus := i\<rparr>) [0, 1, 2, 3, 4],
      binaryInputs =
        map (\<lambda>i. sample_BinaryInputs\<lparr>instanceNumber_input := i\<rparr>) [0, 1, 2, 3, 4, 5, 6],
      version = 1, minorVersion = 1, loaded = True\<rparr>"


definition idle :: io where
  "idle = \<lparr>responses = [], written = [], waits = [], events = []\<rparr>"

text \<open>A first read-config response: echo, a two-byte field, the total length 3, three
  payload bytes.\<close>

definition sample_short_read :: bytes where
  "sample_short_read = [0x00, 0x40, 0x00, 0x00, 0x03, 0x00, 0xAA, 0xBB, 0xCC]"

text \<open>A read-config exchange of 500 bytes in four frames: the second echoes with the
  acknowledgement bit, the last carries no echo.\<close>

definition sample_read_frames :: "bytes list" where
  "sample_read_frames =
     [[0x00, 0x40, 0x00, 0x00, 0xF4, 0x01] @ replicate 196 0xA0,
      [0x00, 0x40, 0x01, 0x00] @ replicate 150 0xA1,
      [0x80, 0x40, 0x02, 0x00] @ replicate 150 0xA2,
      [0x03, 0x00] @ replicate 4 0xA3]"

definition sample_upload :: upload_params where
  "sample_upload =
     \<lparr>imageData = replicate 300 0x55, refreshMode = 0, useCompression = False,
      compressedData = None, uncompressedSize = None\<rparr>"

text \<open>A configuration as a caller builds it before writing: one system record, one
  display, not marked as loaded.\<close>

definition sample_config_new :: GlobalConfig where
  "sample_config_new =
     \<lparr>system = Some sample_SystemConfig, manufacturer = None, power_option = None,
      displays = [sample_DisplayConfig], leds = [], sensors = [], dataBuses = [],
      binaryInputs = [], version = 1, minorVersion = 0, loaded = False\<rparr>"

definition sample_config_full :: GlobalConfig where
  "sample_config_full =
     \<lparr>system = Some sample_SystemConfig, manufacturer = Some sample_ManufacturerData,
      power_option = Some sample_PowerOption,
      displays = [sample_DisplayConfig, sample_DisplayConfig\<lparr>instanceNumber_display := 1\<rparr>],
      leds = [sample_LedConfig], sensors = [sample_SensorData], dataBuses = [sample_DataBus],
      binaryInputs = [sample_BinaryInputs], version = 1, minorVersion = 1, loaded = True\<rparr>"

section \<open>Verification\<close>

subsection \<open>Accessor arithmetic\<close>

lemma uint_byte_of: "uint (word_of_int v :: byte) = v mod 256"
  by (simp add: uint_word_of_int_eq take_bit_eq_mod)

lemma sint_byte_of: "is_int8 v \<Longrightarrow> sint (word_of_int v :: byte) = v"
  by (simp add: is_int8_def sint_sbintrunc' signed_take_bit_int_eq_self)

lemma u8_word: "is_uint8 v \<Longrightarrow> uint (word_of_int v :: byte) = v"
  by (simp add: is_uint8_def uint_byte_of)

lemma u16_word:
  assumes "is_uint16 v"
  shows "uint (word_of_int v :: byte) + 256 * uint (word_of_int (v div 256) :: byte) = v"
proof -
  have "v div 256 mod 256 = v div 256"
    using assms unfolding is_uint16_def by (elim conjE) simp
  then show ?thesis
    by (simp add: uint_byte_of)
qed

lemma u24_word:
  assumes "is_uint24 v"
  shows "uint (word_of_int v :: byte) + (256 * uint (word_of_int (v div 256) :: byte)
           + 65536 * uint (word_of_int (v div 256 div 256) :: byte)) = v"
proof -
  have top: "v div 256 div 256 mod 256 = v div 256 div 256"
    using assms unfolding is_uint24_def by (elim conjE) simp
  have "v div 256 mod 256 + 256 * (v div 256 div 256) = v div 256"
    by simp
  moreover have "v mod 256 + 256 * (v div 256) = v"
    by simp
  ultimately show ?thesis
    unfolding uint_byte_of top by linarith
qed

lemma u32_word:
  assumes "is_uint32 v"
  shows "uint (word_of_int v :: byte) + (256 * uint (word_of_int (v div 256) :: byte)
           + (65536 * uint (word_of_int (v div 256 div 256) :: byte)
           + 16777216 * uint (word_of_int (v div 256 div 256 div 256) :: byte))) = v"
proof -
  have top: "v div 256 div 256 div 256 mod 256 = v div 256 div 256 div 256"
    using assms unfolding is_uint32_def by (elim conjE) simp
  have "v div 256 div 256 mod 256 + 256 * (v div 256 div 256 div 256) = v div 256 div 256"
    by simp
  moreover have "v div 256 mod 256 + 256 * (v div 256 div 256) = v div 256"
    by simp
  moreover have "v mod 256 + 256 * (v div 256) = v"
    by simp
  ultimately show ?thesis
    unfolding uint_byte_of top by linarith
qed

lemma set_reserved_exact: "length r = n \<Longrightarrow> set_reserved n r = r"
  by (simp add: set_reserved_def)

lemma length_set_reserved [simp]: "length (set_reserved n r) = n"
  by (simp add: set_reserved_def)

lemmas codec_defs =
  setUint8_def setInt8_def setUint16_le_def setUint24_le_def setUint32_le_def
  getUint8_def getInt8_def getUint16_le_def getUint24_le_def getUint32_le_def slice_def

lemmas codec_simps =
  sint_byte_of u8_word u16_word u24_word u32_word set_reserved_exact nth_append

lemma uint_byte_lt: "uint (a::byte) < 256"
  using uint_bounded [of a] by simp

lemma byte_256: "(256 :: byte) * x = 0"
proof -
  have "(256 :: byte) = 0" by simp
  then show ?thesis by (simp only: mult_zero_left)
qed

lemma byte_65536: "(65536 :: byte) * x = 0"
proof -
  have "(65536 :: byte) = 0" by simp
  then show ?thesis by (simp only: mult_zero_left)
qed

lemma byte_16777216: "(16777216 :: byte) * x = 0"
proof -
  have "(16777216 :: byte) = 0" by simp
  then show ?thesis by (simp only: mult_zero_left)
qed

lemma byte_lo: "(word_of_int (uint (a::byte) + 256 * k) :: byte) = a"
proof -
  have "(word_of_int (uint a + 256 * k) :: byte) = a + 256 * word_of_int k"
    by simp
  then show ?thesis by (simp only: byte_256 add_0_right)
qed

lemma div_lo: "(uint (a::byte) + 256 * k) div 256 = k"
  using uint_byte_lt [of a] by simp

lemma byte_lo2: "(word_of_int (uint (a::byte) + (256 * k + 65536 * l)) :: byte) = a"
  using byte_lo [of a "k + 256 * l"] by (simp add: algebra_simps)

lemma div_lo2: "(uint (a::byte) + (256 * k + 65536 * l)) div 256 = k + 256 * l"
  using div_lo [of a "k + 256 * l"] by (simp add: algebra_simps)

lemma byte_lo3:
  "(word_of_int (uint (a::byte) + (256 * k + (65536 * l + 16777216 * m))) :: byte) = a"
  using byte_lo [of a "k + 256 * l + 65536 * m"] by (simp add: algebra_simps)

lemma div_lo3:
  "(uint (a::byte) + (256 * k + (65536 * l + 16777216 * m))) div 256
     = k + (256 * l + 65536 * m)"
  using div_lo [of a "k + 256 * l + 65536 * m"] by (simp add: algebra_simps)

lemmas rev_simps =
  numeral_2_eq_2[symmetric] byte_256 byte_65536 byte_16777216
  byte_lo div_lo byte_lo2 div_lo2 byte_lo3 div_lo3

lemma cons2_eq_list:
  "1 < length d \<Longrightarrow> (x # y # xs = d) = (x = d ! 0 \<and> y = d ! 1 \<and> xs = drop 2 d)"
  by (cases d; cases "tl d") auto

lemma cons_eq_drop:
  "n < length d \<Longrightarrow> (x # xs = drop n d) = (x = d ! n \<and> xs = drop (n + 1) d)"
  by (metis Cons_nth_drop_Suc Suc_eq_plus1 list.inject)

lemma take_app_eq_list: "k \<le> length d \<Longrightarrow> (take k d @ ys = d) = (ys = drop k d)"
  by (metis append_take_drop_id same_append_eq)

lemmas list_rev_simps = cons2_eq_list cons_eq_drop take_app_eq_list

subsection \<open>Each record codec is a bijection between in-range records and byte strings\<close>

lemma SystemConfig_roundtrip:
  "valid_SystemConfig r \<Longrightarrow> SystemConfig_fromBytes (serializeSystemConfig r) = Inr r"
  by (simp add: valid_SystemConfig_def SystemConfig_fromBytes_def serializeSystemConfig_def
      codec_defs codec_simps)

lemma ManufacturerData_roundtrip:
  "valid_ManufacturerData r \<Longrightarrow>
     ManufacturerData_fromBytes (serializeManufacturerData r) = Inr r"
  by (simp add: valid_ManufacturerData_def ManufacturerData_fromBytes_def
      serializeManufacturerData_def codec_defs codec_simps)

lemma PowerOption_roundtrip:
  "valid_PowerOption r \<Longrightarrow> PowerOption_fromBytes (serializePowerOption r) = Inr r"
  by (simp add: valid_PowerOption_def PowerOption_fromBytes_def serializePowerOption_def
      codec_defs codec_simps)

lemma DisplayConfig_roundtrip:
  "valid_DisplayConfig r \<Longrightarrow> DisplayConfig_fromBytes (serializeDisplayConfig r) = Inr r"
  by (simp add: valid_DisplayConfig_def DisplayConfig_fromBytes_def serializeDisplayConfig_def
      codec_defs codec_simps)

lemma LedConfig_roundtrip:
  "valid_LedConfig r \<Longrightarrow> LedConfig_fromBytes (serializeLedConfig r) = Inr r"
  by (simp add: valid_LedConfig_def LedConfig_fromBytes_def serializeLedConfig_def
      codec_defs codec_simps)

lemma SensorData_roundtrip:
  "valid_SensorData r \<Longrightarrow> SensorData_fromBytes (serializeSensorData r) = Inr r"
  by (simp add: valid_SensorData_def SensorData_fromBytes_def serializeSensorData_def
      codec_defs codec_simps)

lemma DataBus_roundtrip:
  "valid_DataBus r \<Longrightarrow> DataBus_fromBytes (serializeDataBus r) = Inr r"
  by (simp add: valid_DataBus_def DataBus_fromBytes_def serializeDataBus_def
      codec_defs codec_simps)

lemma BinaryInputs_roundtrip:
  "valid_BinaryInputs r \<Longrightarrow> BinaryInputs_fromBytes (serializeBinaryInputs r) = Inr r"
  by (simp add: valid_BinaryInputs_def BinaryInputs_fromBytes_def serializeBinaryInputs_def
      codec_defs codec_simps)

lemma SystemConfig_reencode:
  "length d = 22 \<Longrightarrow> map_sum id serializeSystemConfig (SystemConfig_fromBytes d) = Inr d"
  by (auto simp add: SystemConfig_fromBytes_def serializeSystemConfig_def
      codec_defs rev_simps set_reserved_def list_rev_simps)

lemma ManufacturerData_reencode:
  "length d = 22 \<Longrightarrow>
     map_sum id serializeManufacturerData (ManufacturerData_fromBytes d) = Inr d"
  by (auto simp add: ManufacturerData_fromBytes_def serializeManufacturerData_def
      codec_defs rev_simps set_reserved_def list_rev_simps)

lemma PowerOption_reencode:
  "length d = 30 \<Longrightarrow> map_sum id serializePowerOption (PowerOption_fromBytes d) = Inr d"
  by (auto simp add: PowerOption_fromBytes_def serializePowerOption_def
      codec_defs rev_simps set_reserved_def list_rev_simps)

lemma DisplayConfig_reencode:
  "length d = 46 \<Longrightarrow> map_sum id serializeDisplayConfig (DisplayConfig_fromBytes d) = Inr d"
  by (auto simp add: DisplayConfig_fromBytes_def serializeDisplayConfig_def
      codec_defs rev_simps set_reserved_def list_rev_simps)

lemma LedConfig_reencode:
  "length d = 22 \<Longrightarrow> map_sum id serializeLedConfig (LedConfig_fromBytes d) = Inr d"
  by (auto simp add: LedConfig_fromBytes_def serializeLedConfig_def
      codec_defs rev_simps set_reserved_def list_rev_simps)

lemma SensorData_reencode:
  "length d = 30 \<Longrightarrow> map_sum id serializeSensorData (SensorData_fromBytes d) = Inr d"
  by (auto simp add: SensorData_fromBytes_def serializeSensorData_def
      codec_defs rev_simps set_reserved_def list_rev_simps)

lemma DataBus_reencode:
  "length d = 30 \<Longrightarrow> map_sum id serializeDataBus (DataBus_fromBytes d) = Inr d"
  by (auto simp add: DataBus_fromBytes_def serializeDataBus_def
      codec_defs rev_simps set_reserved_def list_rev_simps)

lemma BinaryInputs_reencode:
  "length d = 30 \<Longrightarrow> map_sum id serializeBinaryInputs (BinaryInputs_fromBytes d) = Inr d"
  by (auto simp add: BinaryInputs_fromBytes_def serializeBinaryInputs_def
      codec_defs rev_simps set_reserved_def list_rev_simps)

text \<open>
  What holds of all eight record types: decoding the encoding of a record whose fields
  are in the range of the accessor that carries them gives the record back, and
  encoding the decoding of a byte string of the record's size gives the byte string
  back, so that every byte of a reserved region survives decode and encode unchanged.
  The ranges are the documented ones except for \<open>txPower\<close>, which the accessors
  carry as a signed byte.
\<close>

lemma record_codec_roundtrip:
  "(valid_SystemConfig sy \<longrightarrow> SystemConfig_fromBytes (serializeSystemConfig sy) = Inr sy)
   \<and> (valid_ManufacturerData ma \<longrightarrow>
        ManufacturerData_fromBytes (serializeManufacturerData ma) = Inr ma)
   \<and> (valid_PowerOption po \<longrightarrow> PowerOption_fromBytes (serializePowerOption po) = Inr po)
   \<and> (valid_DisplayConfig di \<longrightarrow>
        DisplayConfig_fromBytes (serializeDisplayConfig di) = Inr di)
   \<and> (valid_LedConfig le \<longrightarrow> LedConfig_fromBytes (serializeLedConfig le) = Inr le)
   \<and> (valid_SensorData se \<longrightarrow> SensorData_fromBytes (serializeSensorData se) = Inr se)
   \<and> (valid_DataBus bu \<longrightarrow> DataBus_fromBytes (serializeDataBus bu) = Inr bu)
   \<and> (valid_BinaryInputs bi \<longrightarrow>
        BinaryInputs_fromBytes (serializeBinaryInputs bi) = Inr bi)
   \<and> (length b1 = 22 \<longrightarrow>
        map_sum id serializeSystemConfig (SystemConfig_fromBytes b1) = Inr b1)
   \<and> (length b2 = 22 \<longrightarrow>
        map_sum id serializeManufacturerData (ManufacturerData_fromBytes b2) = Inr b2)
   \<and> (length b3 = 30 \<longrightarrow>
        map_sum id serializePowerOption (PowerOption_fromBytes b3) = Inr b3)
   \<and> (length b4 = 46 \<longrightarrow>
        map_sum id serializeDisplayConfig (DisplayConfig_fromBytes b4) = Inr b4)
   \<and> (length b5 = 22 \<longrightarrow> map_sum id serializeLedConfig (LedConfig_fromBytes b5) = Inr b5)
   \<and> (length b6 = 30 \<longrightarrow>
        map_sum id serializeSensorData (SensorData_fromBytes b6) = Inr b6)
   \<and> (length b7 = 30 \<longrightarrow> map_sum id serializeDataBus (DataBus_fromBytes b7) = Inr b7)
   \<and> (length b8 = 30 \<longrightarrow>
        map_sum id serializeBinaryInputs (BinaryInputs_fromBytes b8) = Inr b8)"
  by (intro conjI impI)
     (simp_all only: SystemConfig_roundtrip ManufacturerData_roundtrip PowerOption_roundtrip
        DisplayConfig_roundtrip LedConfig_roundtrip SensorData_roundtrip DataBus_roundtrip
        BinaryInputs_roundtrip SystemConfig_reencode ManufacturerData_reencode
        PowerOption_reencode DisplayConfig_reencode LedConfig_reencode SensorData_reencode
        DataBus_reencode BinaryInputs_reencode)

lemma sample_valid:
  "valid_SystemConfig sample_SystemConfig"
  "valid_ManufacturerData sample_ManufacturerData"
  "valid_PowerOption sample_PowerOption"
  "valid_DisplayConfig sample_DisplayConfig"
  "valid_LedConfig sample_LedConfig"
  "valid_SensorData sample_SensorData"
  "valid_DataBus sample_DataBus"
  "valid_BinaryInputs sample_BinaryInputs"
  by (simp_all add: valid_SystemConfig_def valid_ManufacturerData_def valid_PowerOption_def
      valid_DisplayConfig_def valid_LedConfig_def valid_SensorData_def valid_DataBus_def
      valid_BinaryInputs_def sample_SystemConfig_def sample_ManufacturerData_def
      sample_PowerOption_def sample_DisplayConfig_def sample_LedConfig_def
      sample_SensorData_def sample_DataBus_def sample_BinaryInputs_def
      is_uint8_def is_int8_def is_uint16_def is_uint24_def is_uint32_def)

lemma record_codec_roundtrip_witness:
  "valid_SystemConfig sample_SystemConfig
   \<and> SystemConfig_fromBytes (serializeSystemConfig sample_SystemConfig)
       = Inr sample_SystemConfig
   \<and> valid_ManufacturerData sample_ManufacturerData
   \<and> ManufacturerData_fromBytes (serializeManufacturerData sample_ManufacturerData)
       = Inr sample_ManufacturerData
   \<and> valid_PowerOption sample_PowerOption
   \<and> PowerOption_fromBytes (serializePowerOption sample_PowerOption) = Inr sample_PowerOption
   \<and> valid_DisplayConfig sample_DisplayConfig
   \<and> DisplayConfig_fromBytes (serializeDisplayConfig sample_DisplayConfig)
       = Inr sample_DisplayConfig
   \<and> valid_LedConfig sample_LedConfig
   \<and> LedConfig_fromBytes (serializeLedConfig sample_LedConfig) = Inr sample_LedConfig
   \<and> valid_SensorData sample_SensorData
   \<and> SensorData_fromBytes (serializeSensorData sample_SensorData) = Inr sample_SensorData
   \<and> valid_DataBus sample_DataBus
   \<and> DataBus_fromBytes (serializeDataBus sample_DataBus) = Inr sample_DataBus
   \<and> valid_BinaryInputs sample_BinaryInputs
   \<and> BinaryInputs_fromBytes (serializeBinaryInputs sample_BinaryInputs)
       = Inr sample_BinaryInputs
   \<and> length (replicate 22 (0x5A :: byte)) = 22
   \<and> map_sum id serializeSystemConfig (SystemConfig_fromBytes (replicate 22 0x5A))
       = Inr (replicate 22 0x5A)
   \<and> map_sum id serializeManufacturerData (ManufacturerData_fromBytes (replicate 22 0x5A))
       = Inr (replicate 22 0x5A)
   \<and> length (replicate 30 (0xC3 :: byte)) = 30
   \<and> map_sum id serializePowerOption (PowerOption_fromBytes (replicate 30 0xC3))
       = Inr (replicate 30 0xC3)
   \<and> length (replicate 46 (0x81 :: byte)) = 46
   \<and> map_sum id serializeDisplayConfig (DisplayConfig_fromBytes (replicate 46 0x81))
       = Inr (replicate 46 0x81)
   \<and> map_sum id serializeLedConfig (LedConfig_fromBytes (replicate 22 0x5A))
       = Inr (replicate 22 0x5A)
   \<and> map_sum id serializeSensorData (SensorData_fromBytes (replicate 30 0xC3))
       = Inr (replicate 30 0xC3)
   \<and> map_sum id serializeDataBus (DataBus_fromBytes (replicate 30 0xC3))
       = Inr (replicate 30 0xC3)
   \<and> map_sum id serializeBinaryInputs (BinaryInputs_fromBytes (replicate 30 0xC3))
       = Inr (replicate 30 0xC3)"
  using record_codec_roundtrip [of sample_SystemConfig sample_ManufacturerData
      sample_PowerOption sample_DisplayConfig sample_LedConfig sample_SensorData
      sample_DataBus sample_BinaryInputs "replicate 22 0x5A" "replicate 22 0x5A"
      "replicate 30 0xC3" "replicate 46 0x81" "replicate 22 0x5A" "replicate 30 0xC3"
      "replicate 30 0xC3" "replicate 30 0xC3"]
    sample_valid
  by (simp only: length_replicate simp_thms)

subsection \<open>A transmit power above 127\<close>

text \<open>
  \<^bold>\<open>C3\<close> (the code at the failing input). The power record \<open>sample_PowerOption\<close>
  with \<open>txPower = 200\<close> has every field in its documented range. \<open>setInt8\<close>
  stores the byte \<open>c8\<close> at offset 6, \<open>getInt8\<close> reads it back as \<open>-56\<close>, and the
  decoded record differs from the encoded one.
\<close>

theorem txPower_200_read_back_negative:
  "documented_PowerOption (sample_PowerOption\<lparr>txPower := 200\<rparr>)
   \<and> serializePowerOption (sample_PowerOption\<lparr>txPower := 200\<rparr>) ! 6 = 0xC8
   \<and> PowerOption_fromBytes (serializePowerOption (sample_PowerOption\<lparr>txPower := 200\<rparr>))
       = Inr (sample_PowerOption\<lparr>txPower := - 56\<rparr>)
   \<and> PowerOption_fromBytes (serializePowerOption (sample_PowerOption\<lparr>txPower := 200\<rparr>))
       \<noteq> Inr (sample_PowerOption\<lparr>txPower := 200\<rparr>)"
proof -
  have a: "documented_PowerOption (sample_PowerOption\<lparr>txPower := 200\<rparr>)"
    by (simp add: documented_PowerOption_def sample_PowerOption_def is_uint8_def is_uint16_def
        is_uint24_def is_uint32_def)
  have b: "serializePowerOption (sample_PowerOption\<lparr>txPower := 200\<rparr>) ! 6 = 0xC8"
    by (simp add: serializePowerOption_def sample_PowerOption_def codec_defs)
  have v: "valid_PowerOption (sample_PowerOption\<lparr>txPower := - 56\<rparr>)"
    using sample_valid(3) by (simp add: valid_PowerOption_def is_int8_def)
  have "serializePowerOption (sample_PowerOption\<lparr>txPower := 200\<rparr>)
          = serializePowerOption (sample_PowerOption\<lparr>txPower := - 56\<rparr>)"
    by (simp add: serializePowerOption_def codec_defs)
  then have c: "PowerOption_fromBytes (serializePowerOption (sample_PowerOption\<lparr>txPower := 200\<rparr>))
       = Inr (sample_PowerOption\<lparr>txPower := - 56\<rparr>)"
    by (simp only: PowerOption_roundtrip [OF v])
  have d: "PowerOption_fromBytes (serializePowerOption (sample_PowerOption\<lparr>txPower := 200\<rparr>))
       \<noteq> Inr (sample_PowerOption\<lparr>txPower := 200\<rparr>)"
    unfolding c by (simp add: sample_PowerOption_def)
  from a b c d show ?thesis
    by (intro conjI)
qed

subsection \<open>Chunking of the write-config command\<close>

lemma config_chunk_loop_done:
  "length configData \<le> offset \<Longrightarrow> config_chunk_loop configData offset chunks = chunks"
  by (subst config_chunk_loop.simps) simp

lemma config_chunk_loop_last:
  assumes "offset < length configData" "length configData \<le> offset + CONFIG_CHUNK_SIZE"
  shows "config_chunk_loop configData offset chunks
           = chunks @ [setUint16_be WRITE_CONFIG_CHUNK @ drop offset configData]"
proof -
  have "min CONFIG_CHUNK_SIZE (length configData - offset) = length configData - offset"
    using assms by simp
  then show ?thesis
    using assms
    by (subst config_chunk_loop.simps) (simp add: Let_def config_chunk_loop_done)
qed

text \<open>
  \<^bold>\<open>C8.\<close> On exactly 200 bytes of config data \<open>buildWriteConfigCommand\<close> returns one
  frame, the opcode 0x0041 followed by the data, and no continuation frame. On exactly
  201 bytes it returns a first frame made of the opcode, the total length 201 as two
  little-endian bytes and the first 198 data bytes, and exactly one continuation frame,
  the opcode 0x0042 followed by the remaining 3 data bytes.
\<close>

theorem buildWriteConfigCommand_200_201:
  "(length d = 200 \<longrightarrow> buildWriteConfigCommand d = ([0x00, 0x41] @ d, []))
   \<and> (length d' = 201 \<longrightarrow>
        buildWriteConfigCommand d'
          = ([0x00, 0x41, 0xC9, 0x00] @ take 198 d', [[0x00, 0x42] @ drop 198 d'])
        \<and> length (drop 198 d') = 3)"
proof (intro conjI impI)
  assume "length d = 200"
  then show "buildWriteConfigCommand d = ([0x00, 0x41] @ d, [])"
    by (simp add: buildWriteConfigCommand_def CONFIG_CHUNK_SIZE_def setUint16_be_def
        WRITE_CONFIG_def)
next
  assume len: "length d' = 201"
  have "config_chunk_loop d' 198 [] = [setUint16_be WRITE_CONFIG_CHUNK @ drop 198 d']"
    using config_chunk_loop_last [of 198 d' "[]"] len by (simp add: CONFIG_CHUNK_SIZE_def)
  then show "buildWriteConfigCommand d'
          = ([0x00, 0x41, 0xC9, 0x00] @ take 198 d', [[0x00, 0x42] @ drop 198 d'])"
    using len
    by (simp add: buildWriteConfigCommand_def CONFIG_CHUNK_SIZE_def setUint16_be_def
        setUint16_le_def WRITE_CONFIG_def WRITE_CONFIG_CHUNK_def Let_def)
  show "length (drop 198 d') = 3"
    using len by simp
qed

theorem buildWriteConfigCommand_200_201_witness:
  "length (replicate 200 (7 :: byte)) = 200
   \<and> buildWriteConfigCommand (replicate 200 7) = ([0x00, 0x41] @ replicate 200 7, [])
   \<and> length (replicate 198 (7 :: byte) @ [1, 2, 3]) = 201
   \<and> buildWriteConfigCommand (replicate 198 7 @ [1, 2, 3])
       = ([0x00, 0x41, 0xC9, 0x00] @ replicate 198 7, [[0x00, 0x42, 1, 2, 3]])"
  using buildWriteConfigCommand_200_201 [of "replicate 200 7" "replicate 198 7 @ [1, 2, 3]"]
  by simp

subsection \<open>Size of the serialized configuration\<close>

lemma length_serializeSystemConfig [simp]: "length (serializeSystemConfig r) = 22"
  by (simp add: serializeSystemConfig_def codec_defs)

lemma length_serializeManufacturerData [simp]: "length (serializeManufacturerData r) = 22"
  by (simp add: serializeManufacturerData_def codec_defs)

lemma length_serializePowerOption [simp]: "length (serializePowerOption r) = 30"
  by (simp add: serializePowerOption_def codec_defs)

lemma length_serializeDisplayConfig [simp]: "length (serializeDisplayConfig r) = 46"
  by (simp add: serializeDisplayConfig_def codec_defs)

lemma length_serializeLedConfig [simp]: "length (serializeLedConfig r) = 22"
  by (simp add: serializeLedConfig_def codec_defs)

lemma length_serializeSensorData [simp]: "length (serializeSensorData r) = 30"
  by (simp add: serializeSensorData_def codec_defs)

lemma length_serializeDataBus [simp]: "length (serializeDataBus r) = 30"
  by (simp add: serializeDataBus_def codec_defs)

lemma length_serializeBinaryInputs [simp]: "length (serializeBinaryInputs r) = 30"
  by (simp add: serializeBinaryInputs_def codec_defs)

lemma upt_4: "[0..<4] = [0, 1, 2, 3]"
  by (simp add: upt_rec)

lemma repeat_chunks_Nil [simp]: "repeat_chunks ty enc [] = []"
  by (simp add: repeat_chunks_def)

lemma repeat_chunks_take: "repeat_chunks ty enc (take 4 xs) = repeat_chunks ty enc xs"
  by (simp add: repeat_chunks_def min_def upt_4)

lemma repeat_chunks_more:
  "4 \<le> length xs \<Longrightarrow>
     repeat_chunks ty enc xs
       = [[0, ty], enc (xs ! 0), [1, ty], enc (xs ! 1), [2, ty], enc (xs ! 2),
          [3, ty], enc (xs ! 3)]"
  by (simp add: repeat_chunks_def min_def upt_4)

lemma length_concat_repeat_chunks:
  assumes "\<And>x. length (enc x) = k"
  shows "length (concat (repeat_chunks ty enc xs)) = min (length xs) 4 * (k + 2)"
proof -
  have "length (concat (concat (map (\<lambda>i. [[word_of_int (int i), ty], enc (xs ! i)]) js)))
          = length js * (k + 2)" for js :: "nat list"
    by (induction js) (simp_all add: assms)
  then show ?thesis
    by (simp add: repeat_chunks_def)
qed

lemma length_concat_single_chunks:
  assumes "\<And>x. length (enc x) = k"
  shows "length (concat (single_chunks ty enc x)) \<le> k + 2"
  by (cases x) (simp_all add: single_chunks_def assms)

lemma length_config_chunks: "length (concat (config_chunks c)) \<le> 755"
proof -
  have "length (concat (single_chunks PACKET_TYPE_SYSTEM serializeSystemConfig (system c)))
          \<le> 24"
    using length_concat_single_chunks [of serializeSystemConfig 22] by simp
  moreover have "length (concat (single_chunks PACKET_TYPE_MANUFACTURER
                   serializeManufacturerData (manufacturer c))) \<le> 24"
    using length_concat_single_chunks [of serializeManufacturerData 22] by simp
  moreover have "length (concat (single_chunks PACKET_TYPE_POWER serializePowerOption
                   (power_option c))) \<le> 32"
    using length_concat_single_chunks [of serializePowerOption 30] by simp
  moreover have "length (concat (repeat_chunks PACKET_TYPE_DISPLAY serializeDisplayConfig
                   (displays c))) \<le> 192"
    by (simp add: length_concat_repeat_chunks [of serializeDisplayConfig 46])
  moreover have "length (concat (repeat_chunks PACKET_TYPE_LED serializeLedConfig (leds c)))
                   \<le> 96"
    by (simp add: length_concat_repeat_chunks [of serializeLedConfig 22])
  moreover have "length (concat (repeat_chunks PACKET_TYPE_SENSOR serializeSensorData
                   (sensors c))) \<le> 128"
    by (simp add: length_concat_repeat_chunks [of serializeSensorData 30])
  moreover have "length (concat (repeat_chunks PACKET_TYPE_DATABUS serializeDataBus
                   (dataBuses c))) \<le> 128"
    by (simp add: length_concat_repeat_chunks [of serializeDataBus 30])
  moreover have "length (concat (repeat_chunks PACKET_TYPE_BINARY_INPUT
                   serializeBinaryInputs (binaryInputs c))) \<le> 128"
    by (simp add: length_concat_repeat_chunks [of serializeBinaryInputs 30])
  ultimately show ?thesis
    by (simp add: config_chunks_def)
qed

lemma serializeConfig_eq:
  "serializeConfig c
     = Inr (concat (config_chunks c)
            @ setUint16_le (calculateConfigCrc (concat (config_chunks c))))"
  using length_config_chunks [of c]
  by (simp add: serializeConfig_def Let_def length_concat)

lemma concat_repeat_chunks_first_four:
  "concat (repeat_chunks ty enc xs) = first_four_packets ty enc xs"
  by (induction ty enc xs rule: first_four_packets.induct)
     (simp_all add: repeat_chunks_def upt_rec)

lemma concat_single_chunks_optional:
  "concat (single_chunks ty enc x) = optional_packet ty enc x"
  by (cases x) (simp_all add: single_chunks_def optional_packet_def)

lemma first_four_packets_take: "first_four_packets ty enc (take 4 xs) = first_four_packets ty enc xs"
  by (induction ty enc xs rule: first_four_packets.induct) simp_all

text \<open>
  \<^bold>\<open>C10.\<close> \<open>serializeConfig\<close> raises no error, whatever the lengths of the five
  repeatable lists. Its output is the header, the packets of the records that occur
  once, then for each repeatable list the packets of its first four entries, tagged 0
  to 3, and nothing for an entry past the fourth, then the checksum of all that; so it
  is the output for the configuration in which each list is cut to its first four
  entries.
\<close>

theorem serializeConfig_first_four_only:
  "serializeConfig c
     = Inr (with_crc
         ([0x00, 0x00, word_of_int (version c)]
          @ optional_packet PACKET_TYPE_SYSTEM serializeSystemConfig (system c)
          @ optional_packet PACKET_TYPE_MANUFACTURER serializeManufacturerData (manufacturer c)
          @ optional_packet PACKET_TYPE_POWER serializePowerOption (power_option c)
          @ first_four_packets PACKET_TYPE_DISPLAY serializeDisplayConfig (displays c)
          @ first_four_packets PACKET_TYPE_LED serializeLedConfig (leds c)
          @ first_four_packets PACKET_TYPE_SENSOR serializeSensorData (sensors c)
          @ first_four_packets PACKET_TYPE_DATABUS serializeDataBus (dataBuses c)
          @ first_four_packets PACKET_TYPE_BINARY_INPUT serializeBinaryInputs (binaryInputs c)))
   \<and> serializeConfig c
       = serializeConfig
           (c\<lparr>displays := take 4 (displays c), leds := take 4 (leds c),
              sensors := take 4 (sensors c), dataBuses := take 4 (dataBuses c),
              binaryInputs := take 4 (binaryInputs c)\<rparr>)"
proof -
  have body: "concat (config_chunks c)
     = [0x00, 0x00, word_of_int (version c)]
          @ optional_packet PACKET_TYPE_SYSTEM serializeSystemConfig (system c)
          @ optional_packet PACKET_TYPE_MANUFACTURER serializeManufacturerData (manufacturer c)
          @ optional_packet PACKET_TYPE_POWER serializePowerOption (power_option c)
          @ first_four_packets PACKET_TYPE_DISPLAY serializeDisplayConfig (displays c)
          @ first_four_packets PACKET_TYPE_LED serializeLedConfig (leds c)
          @ first_four_packets PACKET_TYPE_SENSOR serializeSensorData (sensors c)
          @ first_four_packets PACKET_TYPE_DATABUS serializeDataBus (dataBuses c)
          @ first_four_packets PACKET_TYPE_BINARY_INPUT serializeBinaryInputs (binaryInputs c)"
    for c
    by (simp add: config_chunks_def concat_repeat_chunks_first_four
        concat_single_chunks_optional)
  have out: "serializeConfig c = Inr (with_crc (concat (config_chunks c)))" for c
    by (simp add: serializeConfig_eq with_crc_def)
  have cut: "concat (config_chunks
           (c\<lparr>displays := take 4 (displays c), leds := take 4 (leds c),
              sensors := take 4 (sensors c), dataBuses := take 4 (dataBuses c),
              binaryInputs := take 4 (binaryInputs c)\<rparr>)) = concat (config_chunks c)"
    unfolding body by (simp add: first_four_packets_take)
  show ?thesis
    unfolding out cut unfolding body by simp
qed

theorem serializeConfig_first_four_only_witness:
  "4 < length (displays sample_config_overfull)
   \<and> 4 < length (leds sample_config_overfull)
   \<and> 4 < length (sensors sample_config_overfull)
   \<and> 4 < length (dataBuses sample_config_overfull)
   \<and> 4 < length (binaryInputs sample_config_overfull)
   \<and> serializeConfig sample_config_overfull
       = Inr (with_crc
         ([0x00, 0x00, 0x01]
          @ [0, PACKET_TYPE_SYSTEM] @ serializeSystemConfig sample_SystemConfig
          @ [0, PACKET_TYPE_POWER] @ serializePowerOption sample_PowerOption
          @ [0, PACKET_TYPE_DISPLAY] @ serializeDisplayConfig (sample_DisplayConfig\<lparr>instanceNumber_display := 0\<rparr>)
          @ [1, PACKET_TYPE_DISPLAY] @ serializeDisplayConfig (sample_DisplayConfig\<lparr>instanceNumber_display := 1\<rparr>)
          @ [2, PACKET_TYPE_DISPLAY] @ serializeDisplayConfig (sample_DisplayConfig\<lparr>instanceNumber_display := 2\<rparr>)
          @ [3, PACKET_TYPE_DISPLAY] @ serializeDisplayConfig (sample_DisplayConfig\<lparr>instanceNumber_display := 3\<rparr>)
          @ [0, PACKET_TYPE_LED] @ serializeLedConfig (sample_LedConfig\<lparr>instanceNumber_led := 0\<rparr>)
          @ [1, PACKET_TYPE_LED] @ serializeLedConfig (sample_LedConfig\<lparr>instanceNumber_led := 1\<rparr>)
          @ [2, PACKET_TYPE_LED] @ serializeLedConfig (sample_LedConfig\<lparr>instanceNumber_led := 2\<rparr>)
          @ [3, PACKET_TYPE_LED] @ serializeLedConfig (sample_LedConfig\<lparr>instanceNumber_led := 3\<rparr>)
          @ [0, PACKET_TYPE_SENSOR] @ serializeSensorData (sample_SensorData\<lparr>instanceNumber_sensor := 0\<rparr>)
          @ [1, PACKET_TYPE_SENSOR] @ serializeSensorData (sample_SensorData\<lparr>instanceNumber_sensor := 1\<rparr>)
          @ [2, PACKET_TYPE_SENSOR] @ serializeSensorData (sample_SensorData\<lparr>instanceNumber_sensor := 2\<rparr>)
          @ [3, PACKET_TYPE_SENSOR] @ serializeSensorData (sample_SensorData\<lparr>instanceNumber_sensor := 3\<rparr>)
          @ [0, PACKET_TYPE_DATABUS] @ serializeDataBus (sample_DataBus\<lparr>instanceNumber_bus := 0\<rparr>)
          @ [1, PACKET_TYPE_DATABUS] @ serializeDataBus (sample_DataBus\<lparr>instanceNumber_bus := 1\<rparr>)
          @ [2, PACKET_TYPE_DATABUS] @ serializeDataBus (sample_DataBus\<lparr>instanceNumber_bus := 2\<rparr>)
          @ [3, PACKET_TYPE_DATABUS] @ serializeDataBus (sample_DataBus\<lparr>instanceNumber_bus := 3\<rparr>)
          @ [0, PACKET_TYPE_BINARY_INPUT] @ serializeBinaryInputs (sample_BinaryInputs\<lparr>instanceNumber_input := 0\<rparr>)
          @ [1, PACKET_TYPE_BINARY_INPUT] @ serializeBinaryInputs (sample_BinaryInputs\<lparr>instanceNumber_input := 1\<rparr>)
          @ [2, PACKET_TYPE_BINARY_INPUT] @ serializeBinaryInputs (sample_BinaryInputs\<lparr>instanceNumber_input := 2\<rparr>)
          @ [3, PACKET_TYPE_BINARY_INPUT] @ serializeBinaryInputs (sample_BinaryInputs\<lparr>instanceNumber_input := 3\<rparr>)))"
  using serializeConfig_first_four_only [of sample_config_overfull]
  by (simp add: sample_config_overfull_def optional_packet_def)

subsection \<open>The TLV walker on a stream of packets\<close>

lemma tlv_walk_end: "length data \<le> offset + 1 \<Longrightarrow> tlv_walk data offset m = Inr m"
  by (subst tlv_walk.simps) simp


lemma tlv_walk_truncated:
  "getPacketSize t = Some k \<Longrightarrow> length post < k \<Longrightarrow>
     tlv_walk (pre @ [n, t] @ post) (length pre) m = Inl ConfigParseError"
  by (subst tlv_walk.simps) (simp add: nth_append Let_def)

lemma tlv_walk_step:
  assumes "getPacketSize t = Some (length d)"
  shows "tlv_walk (pre @ [n, t] @ d @ post) (length pre) m
           = tlv_walk (pre @ [n, t] @ d @ post) (length pre + 2 + length d)
               (Map_set (t, n) d m)"
  using assms
  by (subst tlv_walk.simps) (simp add: nth_append Let_def slice_def)

lemma packet_bytes_simp: "packet_bytes ((t, n), d) = n # t # d"
  by (simp add: packet_bytes_def)

lemma tlv_walk_packets:
  "list_all valid_packet ps \<Longrightarrow>
     tlv_walk (pre @ concat (map packet_bytes ps) @ post) (length pre) m
       = tlv_walk (pre @ concat (map packet_bytes ps) @ post)
           (length pre + length (concat (map packet_bytes ps))) (store_packets m ps)"
proof (induction ps arbitrary: pre m)
  case Nil
  then show ?case by (simp add: store_packets_def)
next
  case (Cons p ps)
  obtain t n d where p: "p = ((t, n), d)"
    by (metis surj_pair)
  from Cons.prems have rest: "list_all valid_packet ps" and vp: "valid_packet p"
    by simp_all
  from vp have sz: "getPacketSize t = Some (length d)"
    by (simp add: p valid_packet_def)
  let ?data = "pre @ concat (map packet_bytes (p # ps)) @ post"
  have data1: "?data = pre @ [n, t] @ d @ (concat (map packet_bytes ps) @ post)"
    by (simp add: p packet_bytes_simp)
  have data2: "?data = (pre @ [n, t] @ d) @ concat (map packet_bytes ps) @ post"
    by (simp add: p packet_bytes_simp)
  have "tlv_walk ?data (length pre) m
          = tlv_walk ?data (length pre + 2 + length d) (Map_set (t, n) d m)"
    unfolding data1 by (rule tlv_walk_step [OF sz])
  also have "\<dots> = tlv_walk ?data (length (pre @ [n, t] @ d)) (Map_set (t, n) d m)"
    by simp
  also have "\<dots> = tlv_walk ?data
                     (length (pre @ [n, t] @ d) + length (concat (map packet_bytes ps)))
                     (store_packets (Map_set (t, n) d m) ps)"
    unfolding data2 by (rule Cons.IH [OF rest])
  finally show ?case
    by (simp add: p packet_bytes_simp store_packets_def add.assoc)
qed





lemmas packet_type_defs =
  PACKET_TYPE_SYSTEM_def PACKET_TYPE_MANUFACTURER_def PACKET_TYPE_POWER_def
  PACKET_TYPE_DISPLAY_def PACKET_TYPE_LED_def PACKET_TYPE_SENSOR_def PACKET_TYPE_DATABUS_def
  PACKET_TYPE_BINARY_INPUT_def





subsection \<open>Reassembly of the read-config response\<close>

lemma read_remaining_chunks_done:
  "\<not> cur < tot \<Longrightarrow> read_remaining_chunks tot cur tlv st = (Inr (cur, tlv), st)"
  by (subst read_remaining_chunks.simps) simp

lemma read_remaining_chunks_step:
  "cur < tot \<Longrightarrow> responses st = Inr f # rs \<Longrightarrow>
     read_remaining_chunks tot cur tlv st
       = read_remaining_chunks tot
           (cur + (int (length (stripCommandEcho f READ_CONFIG)) - 2))
           (tlv @ [drop 2 (stripCommandEcho f READ_CONFIG)])
           (st\<lparr>responses := rs, waits := waits st @ [TIMEOUT_CHUNK]\<rparr>)"
  by (subst read_remaining_chunks.simps) (simp add: readResponse_def Let_def)

lemma copy_chunks_exact:
  "offset + length (concat cs) = n \<Longrightarrow> copy_chunks n cs offset = Inr (concat cs)"
  by (induction cs arbitrary: offset) auto

text \<open>
  \<^bold>\<open>C4\<close> (as stated, refuted). On the first response \<open>sample_short_read\<close> the
  code takes the total length from offset 2 after the echo and the payload from offset
  4; reading the length immediately after the echo, as the claim words it, gives a
  different result.
\<close>

theorem interrogate_read_length_not_after_echo:
  "fst (interrogate_read (idle\<lparr>responses := [Inr sample_short_read]\<rparr>))
     = Inr [0xAA, 0xBB, 0xCC]
   \<and> fst (interrogate_read_as_specified (idle\<lparr>responses := [Inr sample_short_read]\<rparr>))
     = Inr [0x03, 0x00, 0xAA, 0xBB, 0xCC]
   \<and> interrogate_read (idle\<lparr>responses := [Inr sample_short_read]\<rparr>)
     \<noteq> interrogate_read_as_specified (idle\<lparr>responses := [Inr sample_short_read]\<rparr>)"
proof -
  have a: "fst (interrogate_read (idle\<lparr>responses := [Inr sample_short_read]\<rparr>))
     = Inr [0xAA, 0xBB, 0xCC]"
    by (simp add: interrogate_read_def idle_def sample_short_read_def writeCommand_def
        readResponse_def stripCommandEcho_def getUint16_be_def getUint16_le_def
        READ_CONFIG_def RESPONSE_HIGH_BIT_FLAG_def read_remaining_chunks_done
        concatenate_chunks_def Let_def)
  have b: "fst (interrogate_read_as_specified (idle\<lparr>responses := [Inr sample_short_read]\<rparr>))
     = Inr [0x03, 0x00, 0xAA, 0xBB, 0xCC]"
    by (simp add: interrogate_read_as_specified_def idle_def sample_short_read_def
        writeCommand_def readResponse_def stripCommandEcho_def getUint16_be_def
        getUint16_le_def READ_CONFIG_def RESPONSE_HIGH_BIT_FLAG_def
        read_remaining_chunks_done concatenate_chunks_def Let_def)
  from a b show ?thesis
    by auto
qed

text \<open>
  \<^bold>\<open>C4\<close> (amended). After stripping the echo of the first response, the code skips
  two bytes, reads the total length as the little-endian 16-bit value at offset 2 and
  takes the bytes from offset 4 on as payload. Every later frame is stripped of its
  echo, if it has one, and of two more bytes, and the rest is payload. With a total
  length of 500, 196 payload bytes in the first frame and 150, 150 and 4 in three
  continuation frames, the payloads are concatenated in arrival order to exactly 500
  bytes, after four reads and before the parser is called.
\<close>

theorem interrogate_read_reassembles_500:
  assumes "responses st = Inr f0 # Inr f1 # Inr f2 # Inr f3 # rest"
    and "4 \<le> length (stripCommandEcho f0 READ_CONFIG)"
    and "getUint16_le (stripCommandEcho f0 READ_CONFIG) 2 = 500"
    and "length (drop 4 (stripCommandEcho f0 READ_CONFIG)) = 196"
    and "length (drop 2 (stripCommandEcho f1 READ_CONFIG)) = 150"
    and "length (drop 2 (stripCommandEcho f2 READ_CONFIG)) = 150"
    and "length (drop 2 (stripCommandEcho f3 READ_CONFIG)) = 4"
  shows "fst (interrogate_read st)
           = Inr (drop 4 (stripCommandEcho f0 READ_CONFIG)
                  @ drop 2 (stripCommandEcho f1 READ_CONFIG)
                  @ drop 2 (stripCommandEcho f2 READ_CONFIG)
                  @ drop 2 (stripCommandEcho f3 READ_CONFIG))
         \<and> length (drop 4 (stripCommandEcho f0 READ_CONFIG)
                  @ drop 2 (stripCommandEcho f1 READ_CONFIG)
                  @ drop 2 (stripCommandEcho f2 READ_CONFIG)
                  @ drop 2 (stripCommandEcho f3 READ_CONFIG)) = 500
         \<and> responses (snd (interrogate_read st)) = rest
         \<and> waits (snd (interrogate_read st))
             = waits st @ [TIMEOUT_FIRST_CHUNK, TIMEOUT_CHUNK, TIMEOUT_CHUNK, TIMEOUT_CHUNK]"
proof -
  let ?c0 = "stripCommandEcho f0 READ_CONFIG"
  let ?c1 = "stripCommandEcho f1 READ_CONFIG"
  let ?c2 = "stripCommandEcho f2 READ_CONFIG"
  let ?c3 = "stripCommandEcho f3 READ_CONFIG"
  let ?st1 = "writeCommand buildReadConfigCommand st"
  let ?s0 = "?st1\<lparr>responses := Inr f1 # Inr f2 # Inr f3 # rest,
                     waits := waits ?st1 @ [TIMEOUT_FIRST_CHUNK]\<rparr>"
  let ?s1 = "?s0\<lparr>responses := Inr f2 # Inr f3 # rest, waits := waits ?s0 @ [TIMEOUT_CHUNK]\<rparr>"
  let ?s2 = "?s1\<lparr>responses := Inr f3 # rest, waits := waits ?s1 @ [TIMEOUT_CHUNK]\<rparr>"
  let ?s3 = "?s2\<lparr>responses := rest, waits := waits ?s2 @ [TIMEOUT_CHUNK]\<rparr>"
  have l0: "int (length ?c0) - 4 = 196" and l1: "int (length ?c1) - 2 = 150"
    and l2: "int (length ?c2) - 2 = 150" and l3: "int (length ?c3) - 2 = 4"
    using assms(4-7) by simp_all
  have first: "readResponse TIMEOUT_FIRST_CHUNK ?st1 = (Inr f0, ?s0)"
    using assms(1) by (simp add: readResponse_def writeCommand_def)
  have "read_remaining_chunks 500 196 [drop 4 ?c0] ?s0
          = read_remaining_chunks 500 346 [drop 4 ?c0, drop 2 ?c1] ?s1"
    using read_remaining_chunks_step [of 196 500 ?s0 f1 "Inr f2 # Inr f3 # rest" "[drop 4 ?c0]"]
      l1 by simp
  also have "\<dots> = read_remaining_chunks 500 496 [drop 4 ?c0, drop 2 ?c1, drop 2 ?c2] ?s2"
    using read_remaining_chunks_step
      [of 346 500 ?s1 f2 "Inr f3 # rest" "[drop 4 ?c0, drop 2 ?c1]"] l2 by simp
  also have "\<dots> = read_remaining_chunks 500 500
                       [drop 4 ?c0, drop 2 ?c1, drop 2 ?c2, drop 2 ?c3] ?s3"
    using read_remaining_chunks_step
      [of 496 500 ?s2 f3 rest "[drop 4 ?c0, drop 2 ?c1, drop 2 ?c2]"] l3 by simp
  also have "\<dots> = (Inr (500, [drop 4 ?c0, drop 2 ?c1, drop 2 ?c2, drop 2 ?c3]), ?s3)"
    by (rule read_remaining_chunks_done) simp
  finally have loop: "read_remaining_chunks 500 196 [drop 4 ?c0] ?s0
          = (Inr (500, [drop 4 ?c0, drop 2 ?c1, drop 2 ?c2, drop 2 ?c3]), ?s3)" .
  have copy: "concatenate_chunks 500 [drop 4 ?c0, drop 2 ?c1, drop 2 ?c2, drop 2 ?c3]
                = Inr (drop 4 ?c0 @ drop 2 ?c1 @ drop 2 ?c2 @ drop 2 ?c3)"
    using copy_chunks_exact [of 0 "[drop 4 ?c0, drop 2 ?c1, drop 2 ?c2, drop 2 ?c3]" 500]
      assms(4-7) by (simp add: concatenate_chunks_def)
  have "interrogate_read st = (Inr (drop 4 ?c0 @ drop 2 ?c1 @ drop 2 ?c2 @ drop 2 ?c3), ?s3)"
    using assms(2,3) l0
    by (simp add: interrogate_read_def Let_def first loop copy)
  then show ?thesis
    using assms(4-7) by (simp add: writeCommand_def)
qed

theorem interrogate_read_reassembles_500_witness:
  "fst (interrogate_read (idle\<lparr>responses := map Inr sample_read_frames\<rparr>))
     = Inr (replicate 196 0xA0 @ replicate 150 0xA1 @ replicate 150 0xA2 @ replicate 4 0xA3)
   \<and> responses (snd (interrogate_read (idle\<lparr>responses := map Inr sample_read_frames\<rparr>)))
     = []"
proof -
  have strip:
    "stripCommandEcho ([0x00, 0x40, 0x00, 0x00, 0xF4, 0x01] @ replicate 196 0xA0) READ_CONFIG
       = [0x00, 0x00, 0xF4, 0x01] @ replicate 196 0xA0"
    "stripCommandEcho ([0x00, 0x40, 0x01, 0x00] @ replicate 150 0xA1) READ_CONFIG
       = [0x01, 0x00] @ replicate 150 0xA1"
    "stripCommandEcho ([0x80, 0x40, 0x02, 0x00] @ replicate 150 0xA2) READ_CONFIG
       = [0x02, 0x00] @ replicate 150 0xA2"
    "stripCommandEcho ([0x03, 0x00] @ replicate 4 0xA3) READ_CONFIG
       = [0x03, 0x00] @ replicate 4 0xA3"
    by (simp_all add: stripCommandEcho_def getUint16_be_def READ_CONFIG_def
        RESPONSE_HIGH_BIT_FLAG_def)
  show ?thesis
    using interrogate_read_reassembles_500
      [of "idle\<lparr>responses := map Inr sample_read_frames\<rparr>"
          "[0x00, 0x40, 0x00, 0x00, 0xF4, 0x01] @ replicate 196 0xA0"
          "[0x00, 0x40, 0x01, 0x00] @ replicate 150 0xA1"
          "[0x80, 0x40, 0x02, 0x00] @ replicate 150 0xA2"
          "[0x03, 0x00] @ replicate 4 0xA3" "[]"]
    unfolding strip
    by (simp add: sample_read_frames_def idle_def getUint16_le_def)
qed

subsection \<open>The chunk loop, one round at a time\<close>

lemma readResponse_Cons:
  "responses st = r # rs \<Longrightarrow>
     readResponse t st = (r, st\<lparr>responses := rs, waits := waits st @ [t]\<rparr>)"
  by (simp add: readResponse_def)

lemma chunk_data:
  "b < length d \<Longrightarrow>
     take (min (b + CHUNK_SIZE) (length d) - b) (drop b d) = take CHUNK_SIZE (drop b d)"
  by (simp add: min_def)

lemma build_data_command:
  "buildDirectWriteDataCommand (take CHUNK_SIZE xs)
     = Inr (setUint16_be DIRECT_WRITE_DATA @ take CHUNK_SIZE xs)"
  by (simp add: buildDirectWriteDataCommand_def)

lemma sendDataChunks_loop_done:
  "\<not> b < length d \<Longrightarrow> sendDataChunks_loop d b st = (Inr False, st)"
  by (subst sendDataChunks_loop.simps) simp

lemma sendDataChunks_loop_round:
  assumes "b < length d"
  shows "sendDataChunks_loop d b st =
     (case await_chunk_response
             (writeCommand (setUint16_be DIRECT_WRITE_DATA @ take CHUNK_SIZE (drop b d)) st) of
        (Inl e, st2) \<Rightarrow> (Inl e, st2)
      | (Inr response, st2) \<Rightarrow>
          (case response_command response of
             Inl e \<Rightarrow> (Inl e, st2)
           | Inr command \<Rightarrow>
               if command = DIRECT_WRITE_DATA then
                 sendDataChunks_loop d (min (b + CHUNK_SIZE) (length d))
                   (emit (OnProgress (int (min (b + CHUNK_SIZE) (length d))) (int (length d)))
                      st2)
               else if command = DIRECT_WRITE_END then
                 (Inr True, emit (OnProgress (int (length d)) (int (length d))) st2)
               else (Inl ProtocolError, st2)))"
proof -
  have nb1: "b + min (length d - b) CHUNK_SIZE = min (b + CHUNK_SIZE) (length d)"
    using assms by (auto simp add: min_def)
  have nb2: "int b + int (min (length d - b) CHUNK_SIZE) = int (min (b + CHUNK_SIZE) (length d))"
    using nb1 by (metis of_nat_add)
  show ?thesis
    using assms
    by (subst sendDataChunks_loop.simps)
       (simp add: Let_def chunk_data build_data_command nb1 nb2 response_command_def
          split: prod.split sum.split)
qed

lemma await_chunk_response_frame:
  "responses st = Inr f # rs \<Longrightarrow>
     await_chunk_response st
       = (Inr f, st\<lparr>responses := rs, waits := waits st @ [TIMEOUT_ACK]\<rparr>)"
  by (simp add: await_chunk_response_def readResponse_def)

lemma await_chunk_response_timeout:
  "responses st = Inl BLETimeoutError # r # rs \<Longrightarrow>
     await_chunk_response st
       = (r, st\<lparr>responses := rs, waits := waits st @ [TIMEOUT_ACK, TIMEOUT_REFRESH],
               events := events st @ [OnStatusChange Refreshing_display]\<rparr>)"
  by (simp add: await_chunk_response_def readResponse_def emit_def)

lemma await_chunk_response_error:
  "responses st = Inl e # rs \<Longrightarrow> e \<noteq> BLETimeoutError \<Longrightarrow>
     await_chunk_response st
       = (Inl e, st\<lparr>responses := rs, waits := waits st @ [TIMEOUT_ACK]\<rparr>)"
  by (simp add: await_chunk_response_def readResponse_def)

lemma command_codes_distinct:
  "DIRECT_WRITE_END \<noteq> DIRECT_WRITE_DATA" "DIRECT_WRITE_DATA \<noteq> DIRECT_WRITE_END"
  by (simp_all add: DIRECT_WRITE_END_def DIRECT_WRITE_DATA_def)

lemma chunk_frame_eq:
  "setUint16_be DIRECT_WRITE_DATA @ take CHUNK_SIZE (drop (j * CHUNK_SIZE) d) = chunk_frame d j"
  by (simp add: chunk_frame_def)

lemma sendDataChunks_loop_auto_complete:
  assumes "list_all (\<lambda>f. response_command f = Inr DIRECT_WRITE_DATA) acks"
    and "response_command e = Inr DIRECT_WRITE_END"
    and "responses st = map Inr acks @ Inr e # rest"
    and "(j + length acks) * CHUNK_SIZE < length d"
  shows "fst (sendDataChunks_loop d (j * CHUNK_SIZE) st) = Inr True
         \<and> written (snd (sendDataChunks_loop d (j * CHUNK_SIZE) st))
             = written st @ map (chunk_frame d) [j..<j + length acks + 1]
         \<and> responses (snd (sendDataChunks_loop d (j * CHUNK_SIZE) st)) = rest"
  using assms
proof (induction acks arbitrary: j st)
  case Nil
  then have b: "j * CHUNK_SIZE < length d" and r: "responses st = Inr e # rest"
    by simp_all
  show ?case
    using Nil.prems(2)
    by (simp add: sendDataChunks_loop_round [OF b] chunk_frame_eq command_codes_distinct
        await_chunk_response_frame [of _ e rest] writeCommand_def r emit_def)
next
  case (Cons f acks)
  from Cons.prems have b: "j * CHUNK_SIZE < length d"
    and full: "min (j * CHUNK_SIZE + CHUNK_SIZE) (length d) = (j + 1) * CHUNK_SIZE"
    and r: "responses st = Inr f # (map Inr acks @ Inr e # rest)"
    and ack: "response_command f = Inr DIRECT_WRITE_DATA"
    and acks: "list_all (\<lambda>f. response_command f = Inr DIRECT_WRITE_DATA) acks"
    and more: "(j + 1 + length acks) * CHUNK_SIZE < length d"
    by (simp_all add: min_def algebra_simps)
  let ?st = "emit (OnProgress (int ((j + 1) * CHUNK_SIZE)) (int (length d)))
               (st\<lparr>written := written st @ [chunk_frame d j],
                   responses := map Inr acks @ Inr e # rest,
                   waits := waits st @ [TIMEOUT_ACK]\<rparr>)"
  have step: "sendDataChunks_loop d (j * CHUNK_SIZE) st
                = sendDataChunks_loop d ((j + 1) * CHUNK_SIZE) ?st"
    by (simp add: sendDataChunks_loop_round [OF b] chunk_frame_eq full ack
        await_chunk_response_frame [of _ f "map Inr acks @ Inr e # rest"] writeCommand_def r)
  have "responses ?st = map Inr acks @ Inr e # rest"
    by (simp add: emit_def)
  from Cons.IH [OF acks Cons.prems(2) this more]
  have ih: "fst (sendDataChunks_loop d ((j + 1) * CHUNK_SIZE) ?st) = Inr True"
    "written (snd (sendDataChunks_loop d ((j + 1) * CHUNK_SIZE) ?st))
       = written ?st @ map (chunk_frame d) [j + 1..<j + 1 + length acks + 1]"
    "responses (snd (sendDataChunks_loop d ((j + 1) * CHUNK_SIZE) ?st)) = rest"
    by simp_all
  have "[j..<j + length (f # acks) + 1] = j # [Suc j..<j + length (f # acks) + 1]"
    by (rule upt_conv_Cons) simp
  then have "[j..<j + length (f # acks) + 1] = j # [j + 1..<j + 1 + length acks + 1]"
    by simp
  then show ?case
    unfolding step using ih by (simp add: emit_def)
qed

subsection \<open>executeUpload around the chunk loop\<close>

lemma send_upload_data_eq:
  "send_upload_data p
     (case compressed_start p of
        Some (n, d) \<Rightarrow> Some (snd (buildDirectWriteStartCompressed n d))
      | None \<Rightarrow> None) st
     = sendDataChunks (chunked_payload p) st"
  by (auto simp add: send_upload_data_def chunked_payload_def sendDataChunks_def
      sendDataChunks_loop_done compressed_start_def split: option.splits)

lemma executeUpload_eq:
  "executeUpload p st =
     (case readResponse TIMEOUT_ACK (writeCommand (start_frame p) st) of
        (Inl e, st2) \<Rightarrow> (Inl e, st2)
      | (Inr response, st2) \<Rightarrow>
          (case validateAckResponse response DIRECT_WRITE_START of
             Inl e \<Rightarrow> (Inl e, st2)
           | Inr u \<Rightarrow>
               (case sendDataChunks (chunked_payload p) st2 of
                  (Inl e, st3) \<Rightarrow> (Inl e, st3)
                | (Inr autoCompleted, st3) \<Rightarrow> finish_upload p autoCompleted st3)))"
proof (cases "compressed_start p")
  case None
  then show ?thesis
    using send_upload_data_eq [of p]
    by (simp add: executeUpload_def start_frame_def split: prod.split sum.split)
next
  case (Some a)
  then show ?thesis
    using send_upload_data_eq [of p]
    by (cases a) (simp add: executeUpload_def start_frame_def split: prod.split sum.split)
qed

lemma CommandCode_no_refresh [simp]:
  "CommandCode ''REFRESH_COMPLETE'' = None" "CommandCode ''REFRESH_TIMEOUT'' = None"
  by (simp_all add: CommandCode_def)

lemma await_refresh_fails: "fst (await_refresh st) \<noteq> Inr ()"
  by (simp add: await_refresh_def split: prod.split sum.split)

lemma await_refresh_state:
  "written (snd (await_refresh st)) = written st"
  "events (snd (await_refresh st)) = events st"
  by (simp_all add: await_refresh_def readResponse_def split: list.split sum.split prod.split)

lemma finish_upload_auto_completed:
  "written (snd (finish_upload p True st)) = written st"
  by (simp add: finish_upload_def await_refresh_state emit_def)

lemma end_command_not_start: "buildDirectWriteEndCommand m \<noteq> start_frame p"
  by (simp add: buildDirectWriteEndCommand_def start_frame_def
      buildDirectWriteStartCompressed_def buildDirectWriteStartUncompressed_def
      setUint16_be_def DIRECT_WRITE_END_def DIRECT_WRITE_START_def Let_def
      split: option.split prod.split)

lemma end_command_not_chunk: "buildDirectWriteEndCommand m \<noteq> chunk_frame d k"
  by (simp add: buildDirectWriteEndCommand_def chunk_frame_def setUint16_be_def
      DIRECT_WRITE_END_def DIRECT_WRITE_DATA_def)

text \<open>
  \<^bold>\<open>C5.\<close> Let the responses to the first \<open>N - 1\<close> chunks (the list \<open>acks\<close>) be
  data acknowledgements and the response \<open>e\<close> to chunk \<open>N\<close> carry the end opcode,
  chunk \<open>N\<close> being one the payload has. Then \<open>sendDataChunks\<close> writes the first
  \<open>N\<close> data frames and nothing more, reads nothing after \<open>e\<close> and returns
  \<open>true\<close>; and \<open>executeUpload\<close>, once its start frame is acknowledged, writes the
  start frame and those \<open>N\<close> data frames only: no end frame.
\<close>

theorem auto_completion_skips_end_frame:
  assumes "list_all (\<lambda>f. response_command f = Inr DIRECT_WRITE_DATA) acks"
    and "response_command e = Inr DIRECT_WRITE_END"
    and "length acks * CHUNK_SIZE < length d"
  shows "(responses st = map Inr acks @ Inr e # rest \<longrightarrow>
            fst (sendDataChunks d st) = Inr True
            \<and> written (snd (sendDataChunks d st))
                = written st @ map (chunk_frame d) [0..<length acks + 1]
            \<and> responses (snd (sendDataChunks d st)) = rest)
         \<and> (chunked_payload p = d \<and> validateAckResponse s DIRECT_WRITE_START = Inr ()
              \<and> responses st = Inr s # map Inr acks @ Inr e # rest \<longrightarrow>
            written (snd (executeUpload p st))
              = written st @ start_frame p # map (chunk_frame d) [0..<length acks + 1]
            \<and> buildDirectWriteEndCommand (refreshMode p)
                \<notin> set (start_frame p # map (chunk_frame d) [0..<length acks + 1]))"
proof -
  have sender: "fst (sendDataChunks d st) = Inr True
        \<and> written (snd (sendDataChunks d st))
            = written st @ map (chunk_frame d) [0..<length acks + 1]
        \<and> responses (snd (sendDataChunks d st)) = rest"
    if r: "responses st = map Inr acks @ Inr e # rest"
    using sendDataChunks_loop_auto_complete [OF assms(1,2) r, of 0 d] assms(3)
    by (simp add: sendDataChunks_def)
  have orchestrator: "written (snd (executeUpload p st))
              = written st @ start_frame p # map (chunk_frame d) [0..<length acks + 1]"
    if a: "chunked_payload p = d \<and> validateAckResponse s DIRECT_WRITE_START = Inr ()
              \<and> responses st = Inr s # map Inr acks @ Inr e # rest"
  proof -
    let ?st2 = "st\<lparr>written := written st @ [start_frame p],
                    responses := map Inr acks @ Inr e # rest,
                    waits := waits st @ [TIMEOUT_ACK]\<rparr>"
    have start: "readResponse TIMEOUT_ACK (writeCommand (start_frame p) st) = (Inr s, ?st2)"
      using a by (simp add: readResponse_def writeCommand_def)
    have r: "responses ?st2 = map Inr acks @ Inr e # rest"
      by simp
    from sendDataChunks_loop_auto_complete [OF assms(1,2) r, of 0 d] assms(3)
    have chunks: "fst (sendDataChunks d ?st2) = Inr True"
      "written (snd (sendDataChunks d ?st2))
         = written ?st2 @ map (chunk_frame d) [0..<length acks + 1]"
      by (simp_all add: sendDataChunks_def)
    obtain st3 where st3: "sendDataChunks d ?st2 = (Inr True, st3)"
      using chunks(1) by (cases "sendDataChunks d ?st2") auto
    have "executeUpload p st = finish_upload p True st3"
      using a by (simp add: executeUpload_eq start st3)
    then show ?thesis
      using chunks(2) st3 by (simp add: finish_upload_auto_completed)
  qed
  have no_end: "buildDirectWriteEndCommand (refreshMode p)
          \<notin> set (start_frame p # map (chunk_frame d) [0..<length acks + 1])"
    using end_command_not_start end_command_not_chunk by auto
  show ?thesis
    using sender orchestrator no_end by blast
qed

theorem auto_completion_skips_end_frame_witness:
  "chunked_payload sample_upload = replicate 300 0x55
   \<and> length ([] :: bytes list) * CHUNK_SIZE < length (replicate 300 (0x55 :: byte))
   \<and> response_command [0x80, 0x72] = Inr DIRECT_WRITE_END
   \<and> validateAckResponse [0x00, 0x70] DIRECT_WRITE_START = Inr ()
   \<and> sendDataChunks (replicate 300 0x55) (idle\<lparr>responses := [Inr [0x80, 0x72]]\<rparr>)
       = (Inr True,
          \<lparr>responses = [], written = [[0x00, 0x71] @ replicate 230 0x55],
           waits = [TIMEOUT_ACK], events = [OnProgress 300 300]\<rparr>)
   \<and> written (snd (executeUpload sample_upload
                        (idle\<lparr>responses := [Inr [0x00, 0x70], Inr [0x80, 0x72]]\<rparr>)))
       = [[0x00, 0x70], [0x00, 0x71] @ replicate 230 0x55]"
proof -
  have e: "response_command [0x80, 0x72] = Inr DIRECT_WRITE_END"
    by (simp add: response_command_def checkResponseType_def unpackCommandCode_def
        getUint16_be_def RESPONSE_HIGH_BIT_FLAG_def DIRECT_WRITE_END_def)
  have s: "validateAckResponse [0x00, 0x70] DIRECT_WRITE_START = Inr ()"
    by (simp add: validateAckResponse_def getUint16_be_def DIRECT_WRITE_START_def)
  have p: "chunked_payload sample_upload = replicate 300 0x55"
    by (simp add: chunked_payload_def sample_upload_def)
  have f: "start_frame sample_upload = [0x00, 0x70]"
    by (simp add: start_frame_def sample_upload_def compressed_start_def
        buildDirectWriteStartUncompressed_def setUint16_be_def DIRECT_WRITE_START_def)
  have c: "chunk_frame (replicate 300 0x55) 0 = [0x00, 0x71] @ replicate 230 0x55"
    by (simp add: chunk_frame_def setUint16_be_def DIRECT_WRITE_DATA_def CHUNK_SIZE_def)
  have run: "sendDataChunks (replicate 300 0x55) (idle\<lparr>responses := [Inr [0x80, 0x72]]\<rparr>)
       = (Inr True,
          \<lparr>responses = [], written = [[0x00, 0x71] @ replicate 230 0x55],
           waits = [TIMEOUT_ACK], events = [OnProgress 300 300]\<rparr>)"
    using e c
    by (simp add: sendDataChunks_def sendDataChunks_loop_round chunk_frame_def idle_def
        await_chunk_response_frame [of _ "[0x80, 0x72]" "[]"] writeCommand_def emit_def
        command_codes_distinct)
  from auto_completion_skips_end_frame
         [of "[]" "[0x80, 0x72]" "replicate 300 0x55"
             "idle\<lparr>responses := [Inr [0x00, 0x70], Inr [0x80, 0x72]]\<rparr>" "[]"
             sample_upload "[0x00, 0x70]"] e s p
  have "written (snd (executeUpload sample_upload
                        (idle\<lparr>responses := [Inr [0x00, 0x70], Inr [0x80, 0x72]]\<rparr>)))
       = [[0x00, 0x70], [0x00, 0x71] @ replicate 230 0x55]"
    by (simp add: CHUNK_SIZE_def idle_def f c)
  then show ?thesis
    using e s p run by (simp add: CHUNK_SIZE_def)
qed

subsection \<open>The refresh wait\<close>

lemma finish_upload_fails: "fst (finish_upload p autoCompleted st) \<noteq> Inr ()"
  by (simp add: finish_upload_def await_refresh_fails split: prod.split sum.split)

lemma executeUpload_never_succeeds: "fst (executeUpload p st) \<noteq> Inr ()"
  by (simp add: executeUpload_eq finish_upload_fails split: prod.split sum.split)

lemma response_command_simps:
  "response_command [0x00, 0x70] = Inr DIRECT_WRITE_START"
  "response_command [0x00, 0x71] = Inr DIRECT_WRITE_DATA"
  "response_command [0x00, 0x72] = Inr DIRECT_WRITE_END"
  "response_command [0x00, 0x73] = Inr 0x73"
  "response_command [0x00, 0x74] = Inr 0x74"
  by (simp_all add: response_command_def checkResponseType_def unpackCommandCode_def
      getUint16_be_def RESPONSE_HIGH_BIT_FLAG_def DIRECT_WRITE_START_def
      DIRECT_WRITE_DATA_def DIRECT_WRITE_END_def)

lemma validateAck_simps:
  "validateAckResponse [0x00, 0x70] DIRECT_WRITE_START = Inr ()"
  "validateAckResponse [0x00, 0x72] DIRECT_WRITE_END = Inr ()"
  by (simp_all add: validateAckResponse_def getUint16_be_def DIRECT_WRITE_START_def
      DIRECT_WRITE_END_def)

lemma await_refresh_frame:
  "responses st = Inr f # rs \<Longrightarrow> response_command f = Inr c \<Longrightarrow>
     await_refresh st
       = (Inl ProtocolError, st\<lparr>responses := rs, waits := waits st @ [TIMEOUT_REFRESH]\<rparr>)"
  by (auto simp add: await_refresh_def readResponse_def response_command_def
      split: sum.splits)

text \<open>
  \<^bold>\<open>C1\<close> (the code at the failing input). A 300-byte uncompressed upload whose start
  frame, two data chunks and end frame are all acknowledged, and whose refresh
  notification then carries the opcode 0x0073, ends in a \<open>ProtocolError\<close> and never
  calls the completion callback; so does the upload that the device auto-completes
  after the first chunk. The enum that the comparison reads has no member
  \<open>REFRESH_COMPLETE\<close> or \<open>REFRESH_TIMEOUT\<close>.
\<close>

theorem refresh_complete_notification_rejected:
  "CommandCode ''REFRESH_COMPLETE'' = None
   \<and> executeUpload sample_upload
         (idle\<lparr>responses := [Inr [0x00, 0x70], Inr [0x00, 0x71], Inr [0x00, 0x71],
                              Inr [0x00, 0x72], Inr [0x00, 0x73]]\<rparr>)
       = (Inl ProtocolError,
          \<lparr>responses = [],
           written = [[0x00, 0x70], [0x00, 0x71] @ replicate 230 0x55,
                      [0x00, 0x71] @ replicate 70 0x55, [0x00, 0x72, 0x00]],
           waits = [TIMEOUT_ACK, TIMEOUT_ACK, TIMEOUT_ACK, TIMEOUT_ACK, TIMEOUT_REFRESH],
           events = [OnProgress 230 300, OnProgress 300 300, OnUploadComplete,
                     OnStatusChange Upload_complete_refreshing]\<rparr>)
   \<and> executeUpload sample_upload
         (idle\<lparr>responses := [Inr [0x00, 0x70], Inr [0x00, 0x72], Inr [0x00, 0x73]]\<rparr>)
       = (Inl ProtocolError,
          \<lparr>responses = [],
           written = [[0x00, 0x70], [0x00, 0x71] @ replicate 230 0x55],
           waits = [TIMEOUT_ACK, TIMEOUT_ACK, TIMEOUT_REFRESH],
           events = [OnProgress 300 300, OnUploadComplete,
                     OnStatusChange Upload_complete_refreshing]\<rparr>)"
proof -
  have p: "chunked_payload sample_upload = replicate 300 0x55"
    by (simp add: chunked_payload_def sample_upload_def)
  have f: "start_frame sample_upload = [0x00, 0x70]"
    by (simp add: start_frame_def sample_upload_def compressed_start_def
        buildDirectWriteStartUncompressed_def setUint16_be_def DIRECT_WRITE_START_def)
  have m: "buildDirectWriteEndCommand (refreshMode sample_upload) = [0x00, 0x72, 0x00]"
    by (simp add: buildDirectWriteEndCommand_def sample_upload_def setUint16_be_def
        setUint8_def DIRECT_WRITE_END_def)
  have d: "setUint16_be DIRECT_WRITE_DATA = [0x00, 0x71]"
    by (simp add: setUint16_be_def DIRECT_WRITE_DATA_def)
  have normal: "executeUpload sample_upload
         (idle\<lparr>responses := [Inr [0x00, 0x70], Inr [0x00, 0x71], Inr [0x00, 0x71],
                              Inr [0x00, 0x72], Inr [0x00, 0x73]]\<rparr>)
       = (Inl ProtocolError,
          \<lparr>responses = [],
           written = [[0x00, 0x70], [0x00, 0x71] @ replicate 230 0x55,
                      [0x00, 0x71] @ replicate 70 0x55, [0x00, 0x72, 0x00]],
           waits = [TIMEOUT_ACK, TIMEOUT_ACK, TIMEOUT_ACK, TIMEOUT_ACK, TIMEOUT_REFRESH],
           events = [OnProgress 230 300, OnProgress 300 300, OnUploadComplete,
                     OnStatusChange Upload_complete_refreshing]\<rparr>)"
    by (simp add: executeUpload_eq p f m d idle_def readResponse_def writeCommand_def
        validateAck_simps sendDataChunks_def sendDataChunks_loop_round
        sendDataChunks_loop_done await_chunk_response_def response_command_simps
        command_codes_distinct emit_def finish_upload_def await_refresh_frame [where c = "0x73"]
        CHUNK_SIZE_def)
  have auto_completed: "executeUpload sample_upload
         (idle\<lparr>responses := [Inr [0x00, 0x70], Inr [0x00, 0x72], Inr [0x00, 0x73]]\<rparr>)
       = (Inl ProtocolError,
          \<lparr>responses = [],
           written = [[0x00, 0x70], [0x00, 0x71] @ replicate 230 0x55],
           waits = [TIMEOUT_ACK, TIMEOUT_ACK, TIMEOUT_REFRESH],
           events = [OnProgress 300 300, OnUploadComplete,
                     OnStatusChange Upload_complete_refreshing]\<rparr>)"
    by (simp add: executeUpload_eq p f m d idle_def readResponse_def writeCommand_def
        validateAck_simps sendDataChunks_def sendDataChunks_loop_round
        sendDataChunks_loop_done await_chunk_response_def response_command_simps
        command_codes_distinct emit_def finish_upload_def await_refresh_frame [where c = "0x73"]
        CHUNK_SIZE_def)
  show ?thesis
    using normal auto_completed by simp
qed

subsection \<open>Where a failed wait is answered by another wait\<close>

lemma stops_at_error_later:
  "stops_at_error (drop k fs) e rest res \<Longrightarrow> k \<le> length fs \<Longrightarrow> stops_at_error fs e rest res"
proof -
  assume a: "stops_at_error (drop k fs) e rest res" and k: "k \<le> length fs"
  show ?thesis
  proof (cases "fst res = Inl e \<and> responses (snd res) = rest")
    case True
    then show ?thesis by (simp add: stops_at_error_def)
  next
    case False
    with a obtain j where j: "j \<le> length (drop k fs)"
      "responses (snd res) = map Inr (drop j (drop k fs)) @ Inl e # rest"
      by (auto simp: stops_at_error_def)
    then have "j + k \<le> length fs"
      "responses (snd res) = map Inr (drop (j + k) fs) @ Inl e # rest"
      using k by simp_all
    then show ?thesis
      unfolding stops_at_error_def by blast
  qed
qed

lemma stops_at_error_unread:
  "responses (snd res) = map Inr fs @ Inl e # rest \<Longrightarrow> stops_at_error fs e rest res"
  unfolding stops_at_error_def by (rule disjI1, rule exI [of _ 0]) simp

lemma stops_at_error_tl:
  "stops_at_error fs e rest res \<Longrightarrow> stops_at_error (f # fs) e rest res"
  using stops_at_error_later [of 1 "f # fs" e rest res] by simp

lemma stops_at_error_returned:
  "fst res = Inl e \<Longrightarrow> responses (snd res) = rest \<Longrightarrow> stops_at_error fs e rest res"
  by (simp add: stops_at_error_def)

lemma read_error:
  "responses st = Inl e # rest \<Longrightarrow>
     readResponse t st = (Inl e, st\<lparr>responses := rest, waits := waits st @ [t]\<rparr>)"
  by (simp add: readResponse_def)

lemma read_frame:
  "responses st = Inr f # rs \<Longrightarrow>
     readResponse t st = (Inr f, st\<lparr>responses := rs, waits := waits st @ [t]\<rparr>)"
  by (simp add: readResponse_def)

lemma read_remaining_chunks_stops:
  "responses st = map Inr fs @ Inl e # rest \<Longrightarrow>
     stops_at_error fs e rest (read_remaining_chunks tot cur tlv st)"
proof (induction fs arbitrary: cur tlv st)
  case Nil
  then show ?case
    by (subst read_remaining_chunks.simps)
       (simp add: read_error stops_at_error_def)
next
  case (Cons f fs)
  show ?case
  proof (cases "cur < tot")
    case True
    from Cons.prems have r: "responses st = Inr f # (map Inr fs @ Inl e # rest)"
      by simp
    show ?thesis
      unfolding read_remaining_chunks_step [OF True r]
      by (rule stops_at_error_tl, rule Cons.IH) simp
  next
    case False
    then show ?thesis
      using Cons.prems by (simp add: read_remaining_chunks_done stops_at_error_unread)
  qed
qed

lemma stops_at_error_result:
  "stops_at_error fs e rest (r, st) \<Longrightarrow> (\<And>x. r = Inl x \<Longrightarrow> r2 = Inl x) \<Longrightarrow>
     stops_at_error fs e rest (r2, st)"
  by (auto simp: stops_at_error_def)

lemma readResponse_stops:
  "responses st = map Inr fs @ Inl e # rest \<Longrightarrow> stops_at_error fs e rest (readResponse t st)"
proof (cases fs)
  case Nil
  assume "responses st = map Inr fs @ Inl e # rest"
  with Nil show ?thesis
    by (simp add: read_error stops_at_error_def)
next
  case (Cons f fs2)
  assume "responses st = map Inr fs @ Inl e # rest"
  with Cons have "readResponse t st
      = (Inr f, st\<lparr>responses := map Inr fs2 @ Inl e # rest, waits := waits st @ [t]\<rparr>)"
    by (simp add: read_frame)
  then show ?thesis
    unfolding Cons by (simp add: stops_at_error_tl stops_at_error_unread)
qed

lemma stops_bind:
  assumes "stops_at_error fs e rest (op1 st)"
    and "\<And>x st2 k. op1 st = (Inr x, st2) \<Longrightarrow> k \<le> length fs \<Longrightarrow>
           responses st2 = map Inr (drop k fs) @ Inl e # rest \<Longrightarrow>
           stops_at_error (drop k fs) e rest (op2 x st2)"
  shows "stops_at_error fs e rest
           (case op1 st of (Inl e, st2) \<Rightarrow> (Inl e, st2) | (Inr x, st2) \<Rightarrow> op2 x st2)"
proof (cases "op1 st")
  case (Pair r st2)
  show ?thesis
  proof (cases r)
    case (Inl x)
    then show ?thesis
      using assms(1) Pair by (auto simp: stops_at_error_def)
  next
    case (Inr x)
    with assms(1) Pair obtain k where k: "k \<le> length fs"
      "responses st2 = map Inr (drop k fs) @ Inl e # rest"
      by (auto simp: stops_at_error_def)
    from assms(2) [OF _ k] Pair Inr
    have "stops_at_error (drop k fs) e rest (op2 x st2)"
      by simp
    then show ?thesis
      using Pair Inr k(1) by (simp add: stops_at_error_later)
  qed
qed

lemma interrogate_read_stops:
  assumes "responses st = map Inr fs @ Inl e # rest"
  shows "stops_at_error fs e rest (interrogate_read st)"
  unfolding interrogate_read_def Let_def
proof (rule stops_bind)
  show "stops_at_error fs e rest
          (readResponse TIMEOUT_FIRST_CHUNK (writeCommand buildReadConfigCommand st))"
    using assms by (simp add: readResponse_stops writeCommand_def)
next
  fix x and st2 :: io and k
  assume r: "responses st2 = map Inr (drop k fs) @ Inl e # rest"
  show "stops_at_error (drop k fs) e rest
          (if length (stripCommandEcho x READ_CONFIG) < 4 then (Inl RangeError, st2)
           else case read_remaining_chunks (getUint16_le (stripCommandEcho x READ_CONFIG) 2)
                       (int (length (stripCommandEcho x READ_CONFIG)) - 4)
                       [drop 4 (stripCommandEcho x READ_CONFIG)] st2 of
                  (Inl e, st3) \<Rightarrow> (Inl e, st3)
                | (Inr (currentLength, tlvData), st3) \<Rightarrow>
                    (concatenate_chunks currentLength tlvData, st3))"
  proof (cases "length (stripCommandEcho x READ_CONFIG) < 4")
    case True
    then show ?thesis
      using r by (simp add: stops_at_error_unread)
  next
    case False
    obtain r st3 where loop:
      "read_remaining_chunks (getUint16_le (stripCommandEcho x READ_CONFIG) 2)
         (int (length (stripCommandEcho x READ_CONFIG)) - 4)
         [drop 4 (stripCommandEcho x READ_CONFIG)] st2 = (r, st3)"
      by (metis surj_pair)
    have "stops_at_error (drop k fs) e rest (r, st3)"
      unfolding loop [symmetric] by (rule read_remaining_chunks_stops [OF r])
    then have "stops_at_error (drop k fs) e rest
                 (case r of Inl e \<Rightarrow> Inl e
                  | Inr (currentLength, tlvData) \<Rightarrow>
                      concatenate_chunks currentLength tlvData, st3)"
      by (rule stops_at_error_result) simp
    then show ?thesis
      using False loop by (auto split: sum.split prod.split)
  qed
qed

lemma interrogate_stops:
  assumes "responses st = map Inr fs @ Inl e # rest"
  shows "stops_at_error fs e rest (interrogate st)"
  unfolding interrogate_def
proof (rule stops_bind)
  show "stops_at_error fs e rest (interrogate_read st)"
    by (rule interrogate_read_stops [OF assms])
qed (simp add: stops_at_error_unread split: sum.split)

lemma readFirmwareVersion_stops:
  assumes "responses st = map Inr fs @ Inl e # rest"
  shows "stops_at_error fs e rest (readFirmwareVersion st)"
  unfolding readFirmwareVersion_def Let_def
proof (rule stops_bind)
  show "stops_at_error fs e rest
          (readResponse TIMEOUT_ACK (writeCommand buildReadFwVersionCommand st))"
    using assms by (simp add: readResponse_stops writeCommand_def)
qed (simp add: stops_at_error_unread)

lemma send_config_chunks_stops:
  "responses st = map Inr fs @ Inl e # rest \<Longrightarrow>
     stops_at_error fs e rest (send_config_chunks cmds st)"
proof (induction cmds arbitrary: fs st)
  case Nil
  then show ?case by (simp add: stops_at_error_unread)
next
  case (Cons c cmds)
  show ?case
    unfolding send_config_chunks.simps Let_def
  proof (rule stops_bind)
    show "stops_at_error fs e rest (readResponse TIMEOUT_ACK (writeCommand c st))"
      using Cons.prems by (simp add: readResponse_stops writeCommand_def)
  next
    fix x and st2 :: io and k
    assume r: "responses st2 = map Inr (drop k fs) @ Inl e # rest"
    show "stops_at_error (drop k fs) e rest
            (case validateAckResponse x WRITE_CONFIG_CHUNK of
               Inl e \<Rightarrow> (Inl e, st2)
             | Inr u \<Rightarrow> send_config_chunks cmds st2)"
      using r Cons.IH [OF r] by (simp add: stops_at_error_unread split: sum.split)
  qed
qed

lemma writeConfig_stops:
  assumes "responses st = map Inr fs @ Inl e # rest"
  shows "stops_at_error fs e rest (writeConfig c st)"
proof (cases "displays c = []")
  case True
  then show ?thesis
    using assms by (simp add: writeConfig_def stops_at_error_unread)
next
  case False
  obtain firstCmd chunkCmds where b:
    "buildWriteConfigCommand
       (concat (config_chunks c) @ setUint16_le (calculateConfigCrc (concat (config_chunks c))))
       = (firstCmd, chunkCmds)"
    by (metis surj_pair)
  have "stops_at_error fs e rest
          (case readResponse TIMEOUT_ACK (writeCommand firstCmd st) of
             (Inl e, st2) \<Rightarrow> (Inl e, st2)
           | (Inr response, st2) \<Rightarrow>
               (case validateAckResponse response WRITE_CONFIG of
                  Inl e \<Rightarrow> (Inl e, st2)
                | Inr u \<Rightarrow> send_config_chunks chunkCmds st2))"
  proof (rule stops_bind)
    show "stops_at_error fs e rest (readResponse TIMEOUT_ACK (writeCommand firstCmd st))"
      using assms by (simp add: readResponse_stops writeCommand_def)
  next
    fix x and st2 :: io and k
    assume r: "responses st2 = map Inr (drop k fs) @ Inl e # rest"
    show "stops_at_error (drop k fs) e rest
            (case validateAckResponse x WRITE_CONFIG of
               Inl e \<Rightarrow> (Inl e, st2)
             | Inr u \<Rightarrow> send_config_chunks chunkCmds st2)"
      using r send_config_chunks_stops [OF r]
      by (simp add: stops_at_error_unread split: sum.split)
  qed
  then show ?thesis
    using False by (simp add: writeConfig_def serializeConfig_eq b Let_def)
qed

lemma sendDataChunks_loop_stops:
  "responses st = map Inr fs @ Inl e # rest \<Longrightarrow> e \<noteq> BLETimeoutError \<Longrightarrow>
     stops_at_error fs e rest (sendDataChunks_loop d b st)"
proof (induction fs arbitrary: b st)
  case Nil
  show ?case
  proof (cases "b < length d")
    case True
    have "responses (writeCommand (setUint16_be DIRECT_WRITE_DATA @ take CHUNK_SIZE (drop b d)) st)
            = Inl e # rest"
      using Nil.prems(1) by (simp add: writeCommand_def)
    from await_chunk_response_error [OF this Nil.prems(2)] show ?thesis
      by (simp add: sendDataChunks_loop_round [OF True] stops_at_error_def)
  next
    case False
    then show ?thesis
      using Nil.prems by (simp add: sendDataChunks_loop_done stops_at_error_unread)
  qed
next
  case (Cons f fs)
  show ?case
  proof (cases "b < length d")
    case True
    let ?st2 = "(writeCommand (setUint16_be DIRECT_WRITE_DATA @ take CHUNK_SIZE (drop b d)) st)
                  \<lparr>responses := map Inr fs @ Inl e # rest,
                   waits := waits st @ [TIMEOUT_ACK]\<rparr>"
    have "responses (writeCommand (setUint16_be DIRECT_WRITE_DATA @ take CHUNK_SIZE (drop b d)) st)
            = Inr f # (map Inr fs @ Inl e # rest)"
      using Cons.prems(1) by (simp add: writeCommand_def)
    from await_chunk_response_frame [OF this]
    have await: "await_chunk_response
                   (writeCommand (setUint16_be DIRECT_WRITE_DATA @ take CHUNK_SIZE (drop b d)) st)
                   = (Inr f, ?st2)"
      by (simp add: writeCommand_def)
    have r2: "responses ?st2 = map Inr fs @ Inl e # rest"
      by simp
    have next_round: "stops_at_error fs e rest (sendDataChunks_loop d b2 (emit ev ?st2))"
      for b2 ev
      by (rule Cons.IH) (simp_all add: emit_def Cons.prems(2))
    have "stops_at_error fs e rest (sendDataChunks_loop d b st)"
      unfolding sendDataChunks_loop_round [OF True] await
      using next_round r2
      by (simp add: stops_at_error_unread emit_def split: sum.split)
    then show ?thesis
      by (rule stops_at_error_tl)
  next
    case False
    then show ?thesis
      using Cons.prems by (simp add: sendDataChunks_loop_done stops_at_error_unread)
  qed
qed

lemma await_refresh_stops:
  assumes "responses st = map Inr fs @ Inl e # rest"
  shows "stops_at_error fs e rest (await_refresh st)"
  unfolding await_refresh_def
proof (rule stops_bind)
  show "stops_at_error fs e rest (readResponse TIMEOUT_REFRESH st)"
    using assms by (rule readResponse_stops)
qed (simp add: stops_at_error_unread split: sum.split prod.split)

lemma finish_upload_stops:
  assumes "responses st = map Inr fs @ Inl e # rest"
  shows "stops_at_error fs e rest (finish_upload p autoCompleted st)"
proof (cases autoCompleted)
  case True
  then show ?thesis
    using assms by (simp add: finish_upload_def await_refresh_stops emit_def)
next
  case False
  have "stops_at_error fs e rest
          (case readResponse TIMEOUT_ACK
                  (writeCommand (buildDirectWriteEndCommand (refreshMode p)) st) of
             (Inl e, st2) \<Rightarrow> (Inl e, st2)
           | (Inr response, st2) \<Rightarrow>
               (case validateAckResponse response DIRECT_WRITE_END of
                  Inl e \<Rightarrow> (Inl e, st2)
                | Inr u \<Rightarrow>
                    await_refresh
                      (emit (OnStatusChange Upload_complete_refreshing)
                         (emit OnUploadComplete st2))))"
  proof (rule stops_bind)
    show "stops_at_error fs e rest
            (readResponse TIMEOUT_ACK
               (writeCommand (buildDirectWriteEndCommand (refreshMode p)) st))"
      using assms by (simp add: readResponse_stops writeCommand_def)
  next
    fix x and st2 :: io and k
    assume r: "responses st2 = map Inr (drop k fs) @ Inl e # rest"
    then have "responses (emit (OnStatusChange Upload_complete_refreshing)
                            (emit OnUploadComplete st2))
                 = map Inr (drop k fs) @ Inl e # rest"
      by (simp add: emit_def)
    from await_refresh_stops [OF this] r
    show "stops_at_error (drop k fs) e rest
            (case validateAckResponse x DIRECT_WRITE_END of
               Inl e \<Rightarrow> (Inl e, st2)
             | Inr u \<Rightarrow>
                 await_refresh
                   (emit (OnStatusChange Upload_complete_refreshing)
                      (emit OnUploadComplete st2)))"
      by (simp add: stops_at_error_unread split: sum.split)
  qed
  then show ?thesis
    using False by (simp add: finish_upload_def Let_def)
qed

lemma executeUpload_stops:
  assumes "responses st = map Inr fs @ Inl e # rest" and "e \<noteq> BLETimeoutError"
  shows "stops_at_error fs e rest (executeUpload p st)"
  unfolding executeUpload_eq
proof (rule stops_bind)
  show "stops_at_error fs e rest (readResponse TIMEOUT_ACK (writeCommand (start_frame p) st))"
    using assms(1) by (simp add: readResponse_stops writeCommand_def)
next
  fix x and st2 :: io and k
  assume r: "responses st2 = map Inr (drop k fs) @ Inl e # rest"
  have "stops_at_error (drop k fs) e rest
          (case sendDataChunks (chunked_payload p) st2 of
             (Inl e, st3) \<Rightarrow> (Inl e, st3)
           | (Inr autoCompleted, st3) \<Rightarrow> finish_upload p autoCompleted st3)"
  proof (rule stops_bind)
    show "stops_at_error (drop k fs) e rest (sendDataChunks (chunked_payload p) st2)"
      unfolding sendDataChunks_def by (rule sendDataChunks_loop_stops [OF r assms(2)])
  next
    fix y and st3 :: io and j
    assume "responses st3 = map Inr (drop j (drop k fs)) @ Inl e # rest"
    then show "stops_at_error (drop j (drop k fs)) e rest (finish_upload p y st3)"
      by (rule finish_upload_stops)
  qed
  then show "stops_at_error (drop k fs) e rest
          (case validateAckResponse x DIRECT_WRITE_START of
             Inl e \<Rightarrow> (Inl e, st2)
           | Inr u \<Rightarrow>
               (case sendDataChunks (chunked_payload p) st2 of
                  (Inl e, st3) \<Rightarrow> (Inl e, st3)
                | (Inr autoCompleted, st3) \<Rightarrow> finish_upload p autoCompleted st3))"
    using r by (simp add: stops_at_error_unread split: sum.split)
qed

subsection \<open>What each operation writes and waits for\<close>

lemma readResponse_pending:
  "readResponse t st = (pending st 0, st\<lparr>responses := tl (responses st), waits := waits st @ [t]\<rparr>)"
  by (cases "responses st") (simp_all add: readResponse_def pending_def)

lemma pending_tl: "responses st2 = tl (responses st) \<Longrightarrow> pending st2 i = pending st (Suc i)"
  by (cases "responses st") (simp_all add: pending_def)

lemma pending_same: "responses st2 = responses st \<Longrightarrow> pending st2 i = pending st i"
  by (simp add: pending_def)

lemma performed_refl: "performed st st [] []"
  by (simp add: performed_def)

lemma performed_exchange:
  assumes "performed st2 st3 ws ts"
    and "written st2 = written st @ [w]" and "waits st2 = waits st @ [t]"
    and "responses st2 = tl (responses st)"
  shows "performed st st3 (w # ws) (t # ts)"
  using assms by (simp add: performed_def drop_Suc)

lemma send_config_chunks_performed:
  "\<exists>k \<le> length cmds.
      performed st (snd (send_config_chunks cmds st)) (take k cmds) (replicate k TIMEOUT_ACK)
      \<and> (\<forall>i. Suc i < k \<longrightarrow>
             exchange (\<lambda>f. validateAckResponse f WRITE_CONFIG_CHUNK) (pending st i) = Inr ())
      \<and> (k = 0 \<longrightarrow> fst (send_config_chunks cmds st) = Inr ())
      \<and> (0 < k \<longrightarrow> fst (send_config_chunks cmds st)
             = exchange (\<lambda>f. validateAckResponse f WRITE_CONFIG_CHUNK) (pending st (k - 1)))
      \<and> (fst (send_config_chunks cmds st) = Inr () \<longrightarrow> k = length cmds)"
proof (induction cmds arbitrary: st)
  case Nil
  show ?case
    by (simp add: performed_refl)
next
  case (Cons c cs)
  let ?chk = "\<lambda>f. validateAckResponse f WRITE_CONFIG_CHUNK"
  let ?st2 = "st\<lparr>written := written st @ [c], responses := tl (responses st),
                  waits := waits st @ [TIMEOUT_ACK]\<rparr>"
  have rd: "readResponse TIMEOUT_ACK (writeCommand c st) = (pending st 0, ?st2)"
    by (simp add: readResponse_pending writeCommand_def pending_def)
  show ?case
  proof (cases "exchange ?chk (pending st 0)")
    case (Inl e)
    then have res: "send_config_chunks (c # cs) st = (Inl e, ?st2)"
      by (auto simp add: rd exchange_def split: sum.splits)
    show ?thesis
      unfolding res
    proof (intro exI [of _ 1] conjI)
      show "performed st (snd (Inl e, ?st2)) (take 1 (c # cs)) (replicate 1 TIMEOUT_ACK)"
        by (simp add: performed_def drop_Suc)
      show "0 < (1::nat) \<longrightarrow> fst (Inl e :: error + unit, ?st2) = exchange ?chk (pending st (1 - 1))"
        using Inl by simp
    qed simp_all
  next
    case (Inr u)
    then obtain f where f: "pending st 0 = Inr f" "validateAckResponse f WRITE_CONFIG_CHUNK = Inr ()"
      by (auto simp add: exchange_def split: sum.splits)
    have res: "send_config_chunks (c # cs) st = send_config_chunks cs ?st2"
      by (simp add: rd f)
    from Cons.IH [of ?st2] obtain k where k: "k \<le> length cs"
      "performed ?st2 (snd (send_config_chunks cs ?st2)) (take k cs) (replicate k TIMEOUT_ACK)"
      "\<forall>i. Suc i < k \<longrightarrow> exchange ?chk (pending ?st2 i) = Inr ()"
      "k = 0 \<longrightarrow> fst (send_config_chunks cs ?st2) = Inr ()"
      "0 < k \<longrightarrow> fst (send_config_chunks cs ?st2) = exchange ?chk (pending ?st2 (k - 1))"
      "fst (send_config_chunks cs ?st2) = Inr () \<longrightarrow> k = length cs"
      by (elim exE conjE) (rule that; assumption)
    have shift: "pending ?st2 i = pending st (Suc i)" for i
      by (rule pending_tl) simp
    have p: "performed st (snd (send_config_chunks cs ?st2)) (take (Suc k) (c # cs))
               (replicate (Suc k) TIMEOUT_ACK)"
      using performed_exchange [OF k(2), of st c TIMEOUT_ACK] by simp
    have valid: "\<forall>i. Suc i < Suc k \<longrightarrow> exchange ?chk (pending st i) = Inr ()"
    proof (intro allI impI)
      fix i assume "Suc i < Suc k"
      show "exchange ?chk (pending st i) = Inr ()"
      proof (cases i)
        case 0
        then show ?thesis using Inr by simp
      next
        case (Suc j)
        with \<open>Suc i < Suc k\<close> have "Suc j < k" by simp
        with k(3) shift show ?thesis
          using Suc by simp
      qed
    qed
    have last: "fst (send_config_chunks cs ?st2) = exchange ?chk (pending st (Suc k - 1))"
    proof (cases k)
      case 0
      with k(4) Inr show ?thesis by simp
    next
      case (Suc j)
      with k(5) shift show ?thesis by simp
    qed
    show ?thesis
      unfolding res
    proof (intro exI [of _ "Suc k"] conjI)
      show "Suc k \<le> length (c # cs)"
        using k(1) by simp
      show "performed st (snd (send_config_chunks cs ?st2)) (take (Suc k) (c # cs))
               (replicate (Suc k) TIMEOUT_ACK)"
        by (rule p)
      show "\<forall>i. Suc i < Suc k \<longrightarrow> exchange ?chk (pending st i) = Inr ()"
        by (rule valid)
      show "Suc k = 0 \<longrightarrow> fst (send_config_chunks cs ?st2) = Inr ()"
        by simp
      show "0 < Suc k \<longrightarrow> fst (send_config_chunks cs ?st2)
              = exchange ?chk (pending st (Suc k - 1))"
        using last by (intro impI)
      show "fst (send_config_chunks cs ?st2) = Inr () \<longrightarrow> Suc k = length (c # cs)"
        using k(6) by simp
    qed
  qed
qed

lemma writeConfig_performed:
  assumes "displays c \<noteq> []" and "serializeConfig c = Inr configData"
  shows "\<exists>k. 1 \<le> k \<and> k \<le> length (config_frames configData)
      \<and> performed st (snd (writeConfig c st)) (take k (config_frames configData))
            (replicate k TIMEOUT_ACK)
      \<and> (\<forall>i. Suc i < k \<longrightarrow> exchange (config_ack i) (pending st i) = Inr ())
      \<and> fst (writeConfig c st) = exchange (config_ack (k - 1)) (pending st (k - 1))
      \<and> (fst (writeConfig c st) = Inr () \<longrightarrow> k = length (config_frames configData))"
proof -
  obtain firstCmd chunkCmds where b: "buildWriteConfigCommand configData = (firstCmd, chunkCmds)"
    by (cases "buildWriteConfigCommand configData")
  have frames: "config_frames configData = firstCmd # chunkCmds"
    by (simp add: config_frames_def b)
  let ?chk = "\<lambda>f. validateAckResponse f WRITE_CONFIG_CHUNK"
  let ?st2 = "st\<lparr>written := written st @ [firstCmd], responses := tl (responses st),
                  waits := waits st @ [TIMEOUT_ACK]\<rparr>"
  have rd: "readResponse TIMEOUT_ACK (writeCommand firstCmd st) = (pending st 0, ?st2)"
    by (simp add: readResponse_pending writeCommand_def pending_def)
  have ack0: "config_ack 0 = (\<lambda>f. validateAckResponse f WRITE_CONFIG)"
    by (rule ext) (simp add: config_ack_def)
  have ackS: "config_ack (Suc i) = ?chk" for i
    by (rule ext) (simp add: config_ack_def)
  show ?thesis
  proof (cases "exchange (config_ack 0) (pending st 0)")
    case (Inl e)
    then have res: "writeConfig c st = (Inl e, ?st2)"
      using assms
      by (auto simp add: writeConfig_def b rd exchange_def ack0 split: sum.splits)
    show ?thesis
      unfolding res frames
    proof (intro exI [of _ 1] conjI)
      show "performed st (snd (Inl e, ?st2)) (take 1 (firstCmd # chunkCmds))
              (replicate 1 TIMEOUT_ACK)"
        by (simp add: performed_def drop_Suc)
      show "fst (Inl e :: error + unit, ?st2) = exchange (config_ack (1 - 1)) (pending st (1 - 1))"
        using Inl by simp
    qed simp_all
  next
    case (Inr u)
    then obtain f where f: "pending st 0 = Inr f" "validateAckResponse f WRITE_CONFIG = Inr ()"
      by (auto simp add: exchange_def ack0 split: sum.splits)
    have res: "writeConfig c st = send_config_chunks chunkCmds ?st2"
      using assms by (simp add: writeConfig_def b rd f)
    from send_config_chunks_performed [of chunkCmds ?st2] obtain k where k: "k \<le> length chunkCmds"
      "performed ?st2 (snd (send_config_chunks chunkCmds ?st2)) (take k chunkCmds)
         (replicate k TIMEOUT_ACK)"
      "\<forall>i. Suc i < k \<longrightarrow> exchange ?chk (pending ?st2 i) = Inr ()"
      "k = 0 \<longrightarrow> fst (send_config_chunks chunkCmds ?st2) = Inr ()"
      "0 < k \<longrightarrow> fst (send_config_chunks chunkCmds ?st2) = exchange ?chk (pending ?st2 (k - 1))"
      "fst (send_config_chunks chunkCmds ?st2) = Inr () \<longrightarrow> k = length chunkCmds"
      by (elim exE conjE) (rule that; assumption)
    have shift: "pending ?st2 i = pending st (Suc i)" for i
      by (rule pending_tl) simp
    have p: "performed st (snd (send_config_chunks chunkCmds ?st2))
               (take (Suc k) (firstCmd # chunkCmds)) (replicate (Suc k) TIMEOUT_ACK)"
      using performed_exchange [OF k(2), of st firstCmd TIMEOUT_ACK] by simp
    have valid: "\<forall>i. Suc i < Suc k \<longrightarrow> exchange (config_ack i) (pending st i) = Inr ()"
    proof (intro allI impI)
      fix i assume "Suc i < Suc k"
      show "exchange (config_ack i) (pending st i) = Inr ()"
      proof (cases i)
        case 0
        then show ?thesis using Inr by simp
      next
        case (Suc j)
        with \<open>Suc i < Suc k\<close> have "Suc j < k" by simp
        with k(3) have "exchange ?chk (pending ?st2 j) = Inr ()"
          by simp
        then show ?thesis
          unfolding Suc ackS shift .
      qed
    qed
    have last: "fst (send_config_chunks chunkCmds ?st2)
                  = exchange (config_ack (Suc k - 1)) (pending st (Suc k - 1))"
    proof (cases k)
      case 0
      with k(4) Inr show ?thesis by simp
    next
      case (Suc j)
      with k(5) have "fst (send_config_chunks chunkCmds ?st2) = exchange ?chk (pending ?st2 j)"
        by simp
      then show ?thesis
        unfolding Suc shift by (simp add: ackS)
    qed
    show ?thesis
      unfolding res frames
    proof (intro exI [of _ "Suc k"] conjI)
      show "Suc k \<le> length (firstCmd # chunkCmds)"
        using k(1) by simp
      show "performed st (snd (send_config_chunks chunkCmds ?st2))
               (take (Suc k) (firstCmd # chunkCmds)) (replicate (Suc k) TIMEOUT_ACK)"
        by (rule p)
      show "\<forall>i. Suc i < Suc k \<longrightarrow> exchange (config_ack i) (pending st i) = Inr ()"
        by (rule valid)
      show "fst (send_config_chunks chunkCmds ?st2)
              = exchange (config_ack (Suc k - 1)) (pending st (Suc k - 1))"
        by (rule last)
      show "fst (send_config_chunks chunkCmds ?st2) = Inr ()
              \<longrightarrow> Suc k = length (firstCmd # chunkCmds)"
        using k(6) by simp
    qed simp
  qed
qed

lemma writeConfig_no_display: "displays c = [] \<Longrightarrow> writeConfig c st = (Inl Error, st)"
  by (simp add: writeConfig_def)

lemma readFirmwareVersion_performed:
  "performed st (snd (readFirmwareVersion st)) [buildReadFwVersionCommand] [TIMEOUT_ACK]
   \<and> fst (readFirmwareVersion st) = exchange parseFirmwareVersion (pending st 0)"
  by (simp add: readFirmwareVersion_def readResponse_pending writeCommand_def pending_def
      performed_def exchange_def drop_Suc split: sum.split)

lemma reboot_performed:
  "performed st (snd (reboot st)) [buildRebootCommand] [] \<and> fst (reboot st) = Inr ()"
  by (simp add: reboot_def writeCommand_def performed_def)

lemma performed_wait:
  assumes "performed st2 st3 ws ts"
    and "written st2 = written st" and "waits st2 = waits st @ [t]"
    and "responses st2 = tl (responses st)"
  shows "performed st st3 ws (t # ts)"
  using assms by (simp add: performed_def drop_Suc)

lemma read_remaining_chunks_round:
  assumes "cur < tot"
  shows "read_remaining_chunks tot cur tlv st =
     (case pending st 0 of
        Inl e \<Rightarrow> (Inl e, st\<lparr>responses := tl (responses st), waits := waits st @ [TIMEOUT_CHUNK]\<rparr>)
      | Inr f \<Rightarrow>
          read_remaining_chunks tot (cur + continuation_payload (Inr f))
            (tlv @ [drop 2 (stripCommandEcho f READ_CONFIG)])
            (st\<lparr>responses := tl (responses st), waits := waits st @ [TIMEOUT_CHUNK]\<rparr>))"
  using assms
  by (subst read_remaining_chunks.simps)
     (simp add: readResponse_pending Let_def continuation_payload_def split: sum.split)

lemma read_remaining_chunks_performed:
  "\<exists>m. performed st (snd (read_remaining_chunks tot cur tlv st)) [] (replicate m TIMEOUT_CHUNK)
      \<and> (\<forall>i<m. cur + sum_list (take i (map continuation_payload (responses st))) < tot)
      \<and> (\<forall>i. Suc i < m \<longrightarrow> (\<exists>f. pending st i = Inr f))
      \<and> (m = 0 \<longrightarrow> tot \<le> cur)
      \<and> (0 < m \<longrightarrow>
           (case pending st (m - 1) of
              Inl e \<Rightarrow> fst (read_remaining_chunks tot cur tlv st) = Inl e
            | Inr f \<Rightarrow>
                tot \<le> cur + sum_list (take m (map continuation_payload (responses st)))))"
proof (induction "length (responses st)" arbitrary: st cur tlv)
  case 0
  then have empty: "responses st = []"
    by simp
  show ?case
  proof (cases "cur < tot")
    case False
    show ?thesis
      unfolding read_remaining_chunks_done [OF False]
      using False by (intro exI [of _ 0]) (simp add: performed_refl)
  next
    case True
    have p0: "pending st 0 = Inl BLETimeoutError"
      by (simp add: pending_def empty)
    have res: "read_remaining_chunks tot cur tlv st
      = (Inl BLETimeoutError, st\<lparr>responses := tl (responses st), waits := waits st @ [TIMEOUT_CHUNK]\<rparr>)"
      by (simp add: read_remaining_chunks_round [OF True] p0)
    show ?thesis
      unfolding res
      using True by (intro exI [of _ 1]) (simp add: performed_def p0 empty)
  qed
next
  case (Suc n)
  then obtain r rs where rs: "responses st = r # rs" and n: "n = length rs"
    by (cases "responses st") simp_all
  have p0: "pending st 0 = r"
    by (simp add: pending_def rs)
  let ?st2 = "st\<lparr>responses := tl (responses st), waits := waits st @ [TIMEOUT_CHUNK]\<rparr>"
  show ?case
  proof (cases "cur < tot")
    case False
    show ?thesis
      unfolding read_remaining_chunks_done [OF False]
      using False by (intro exI [of _ 0]) (simp add: performed_refl)
  next
    case True
    show ?thesis
    proof (cases r)
      case (Inl e)
      have res: "read_remaining_chunks tot cur tlv st = (Inl e, ?st2)"
        by (simp add: read_remaining_chunks_round [OF True] p0 Inl)
      show ?thesis
        unfolding res
        using True by (intro exI [of _ 1]) (simp add: performed_def p0 Inl rs)
    next
      case (Inr f)
      let ?cur2 = "cur + continuation_payload (Inr f)"
      let ?tlv2 = "tlv @ [drop 2 (stripCommandEcho f READ_CONFIG)]"
      have res: "read_remaining_chunks tot cur tlv st = read_remaining_chunks tot ?cur2 ?tlv2 ?st2"
        by (simp add: read_remaining_chunks_round [OF True] p0 Inr)
      have r2: "responses ?st2 = rs"
        by (simp add: rs)
      have shift: "pending ?st2 i = pending st (Suc i)" for i
        by (rule pending_tl) simp
      have "n = length (responses ?st2)"
        by (simp add: r2 n)
      from Suc.hyps(1) [OF this, where cur = ?cur2 and tlv = ?tlv2] obtain m where m:
        "performed ?st2 (snd (read_remaining_chunks tot ?cur2 ?tlv2 ?st2)) []
           (replicate m TIMEOUT_CHUNK)"
        "\<forall>i<m. ?cur2 + sum_list (take i (map continuation_payload (responses ?st2))) < tot"
        "\<forall>i. Suc i < m \<longrightarrow> (\<exists>f. pending ?st2 i = Inr f)"
        "m = 0 \<longrightarrow> tot \<le> ?cur2"
        "0 < m \<longrightarrow>
           (case pending ?st2 (m - 1) of
              Inl e \<Rightarrow> fst (read_remaining_chunks tot ?cur2 ?tlv2 ?st2) = Inl e
            | Inr f \<Rightarrow>
                tot \<le> ?cur2 + sum_list (take m (map continuation_payload (responses ?st2))))"
        by (elim exE conjE) (rule that; assumption)
      have sum_shift: "cur + sum_list (take (Suc i) (map continuation_payload (responses st)))
                         = ?cur2 + sum_list (take i (map continuation_payload (responses ?st2)))"
        for i
        unfolding r2 by (simp add: rs Inr)
      have a: "performed st (snd (read_remaining_chunks tot ?cur2 ?tlv2 ?st2)) []
                 (replicate (Suc m) TIMEOUT_CHUNK)"
        using performed_wait [OF m(1), of st TIMEOUT_CHUNK] by simp
      have b: "\<forall>i<Suc m. cur + sum_list (take i (map continuation_payload (responses st))) < tot"
      proof (intro allI impI)
        fix i assume i: "i < Suc m"
        show "cur + sum_list (take i (map continuation_payload (responses st))) < tot"
        proof (cases i)
          case 0
          then show ?thesis using True by simp
        next
          case (Suc j)
          with i m(2) have "?cur2 + sum_list (take j (map continuation_payload (responses ?st2))) < tot"
            by simp
          then show ?thesis
            unfolding Suc sum_shift .
        qed
      qed
      have c: "\<forall>i. Suc i < Suc m \<longrightarrow> (\<exists>f. pending st i = Inr f)"
      proof (intro allI impI)
        fix i assume i: "Suc i < Suc m"
        show "\<exists>f. pending st i = Inr f"
        proof (cases i)
          case 0
          then show ?thesis by (simp add: p0 Inr)
        next
          case (Suc j)
          with i m(3) have "\<exists>f. pending ?st2 j = Inr f"
            by simp
          then show ?thesis
            unfolding Suc shift .
        qed
      qed
      have d: "case pending st (Suc m - 1) of
              Inl e \<Rightarrow> fst (read_remaining_chunks tot ?cur2 ?tlv2 ?st2) = Inl e
            | Inr f \<Rightarrow>
                tot \<le> cur + sum_list (take (Suc m) (map continuation_payload (responses st)))"
      proof (cases m)
        case 0
        with m(4) have "tot \<le> ?cur2"
          by simp
        then show ?thesis
          unfolding 0 by (simp add: p0 Inr rs)
      next
        case (Suc j)
        with m(5) have "case pending ?st2 j of
              Inl e \<Rightarrow> fst (read_remaining_chunks tot ?cur2 ?tlv2 ?st2) = Inl e
            | Inr f \<Rightarrow>
                tot \<le> ?cur2 + sum_list (take m (map continuation_payload (responses ?st2)))"
          by simp
        then show ?thesis
          unfolding shift sum_shift [symmetric] by (simp add: Suc)
      qed
      show ?thesis
        unfolding res
      proof (intro exI [of _ "Suc m"] conjI)
        show "performed st (snd (read_remaining_chunks tot ?cur2 ?tlv2 ?st2)) []
                 (replicate (Suc m) TIMEOUT_CHUNK)"
          by (rule a)
        show "\<forall>i<Suc m. cur + sum_list (take i (map continuation_payload (responses st))) < tot"
          by (rule b)
        show "\<forall>i. Suc i < Suc m \<longrightarrow> (\<exists>f. pending st i = Inr f)"
          by (rule c)
        show "0 < Suc m \<longrightarrow>
           (case pending st (Suc m - 1) of
              Inl e \<Rightarrow> fst (read_remaining_chunks tot ?cur2 ?tlv2 ?st2) = Inl e
            | Inr f \<Rightarrow>
                tot \<le> cur + sum_list (take (Suc m) (map continuation_payload (responses st))))"
          using d by (intro impI)
      qed simp
    qed
  qed
qed

lemma interrogate_state: "snd (interrogate st) = snd (interrogate_read st)"
  by (cases "interrogate_read st") (auto simp add: interrogate_def split: sum.split)

lemma interrogate_error: "fst (interrogate_read st) = Inl e \<Longrightarrow> fst (interrogate st) = Inl e"
  by (cases "interrogate_read st") (auto simp add: interrogate_def split: sum.split)

lemma interrogate_read_performed:
  "\<exists>n. performed st (snd (interrogate_read st)) [buildReadConfigCommand]
          (TIMEOUT_FIRST_CHUNK # replicate n TIMEOUT_CHUNK)
      \<and> (\<forall>i<n. \<exists>f. pending st i = Inr f)
      \<and> (\<forall>i<n. received st i < announced st)
      \<and> (0 < n \<longrightarrow> 4 \<le> length (first_chunk st))
      \<and> (case pending st n of
            Inl e \<Rightarrow> fst (interrogate_read st) = Inl e
          | Inr f \<Rightarrow>
              if length (first_chunk st) < 4
              then n = 0 \<and> fst (interrogate_read st) = Inl RangeError
              else announced st \<le> received st n)"
proof -
  let ?st2 = "st\<lparr>written := written st @ [buildReadConfigCommand],
                  responses := tl (responses st),
                  waits := waits st @ [TIMEOUT_FIRST_CHUNK]\<rparr>"
  have rd: "readResponse TIMEOUT_FIRST_CHUNK (writeCommand buildReadConfigCommand st)
              = (pending st 0, ?st2)"
    by (simp add: readResponse_pending writeCommand_def pending_def)
  have one: "performed st ?st2 [buildReadConfigCommand] (TIMEOUT_FIRST_CHUNK # replicate 0 TIMEOUT_CHUNK)"
    by (simp add: performed_def drop_Suc)
  show ?thesis
  proof (cases "pending st 0")
    case (Inl e)
    have res: "interrogate_read st = (Inl e, ?st2)"
      by (simp add: interrogate_read_def rd Inl)
    show ?thesis
      unfolding res
      using one by (intro exI [of _ 0]) (simp add: Inl)
  next
    case (Inr f0)
    have chunk: "first_chunk st = stripCommandEcho f0 READ_CONFIG"
      by (simp add: first_chunk_def Inr)
    show ?thesis
    proof (cases "length (first_chunk st) < 4")
      case True
      have res: "interrogate_read st = (Inl RangeError, ?st2)"
        using True by (simp add: interrogate_read_def rd Inr chunk)
      show ?thesis
        unfolding res
        using one True by (intro exI [of _ 0]) (simp add: Inr)
    next
      case False
      let ?cur = "int (length (first_chunk st)) - 4"
      let ?loop = "read_remaining_chunks (announced st) ?cur [drop 4 (first_chunk st)] ?st2"
      have res: "interrogate_read st =
          (case ?loop of
             (Inl e, st3) \<Rightarrow> (Inl e, st3)
           | (Inr (currentLength, tlvData), st3) \<Rightarrow>
               (concatenate_chunks currentLength tlvData, st3))"
        using False
        by (simp add: interrogate_read_def rd Inr chunk [symmetric] announced_def Let_def)
      have state: "snd (interrogate_read st) = snd ?loop"
        unfolding res by (cases ?loop) (auto split: sum.split)
      have err: "fst (interrogate_read st) = Inl e" if "fst ?loop = Inl e" for e
        using that unfolding res by (cases ?loop) (auto split: sum.split)
      have r2: "responses ?st2 = tl (responses st)"
        by simp
      have shift: "pending ?st2 i = pending st (Suc i)" for i
        by (rule pending_tl) simp
      have rec: "?cur + sum_list (take i (map continuation_payload (responses ?st2)))
                   = received st i" for i
        unfolding r2 by (simp add: received_def)
      from read_remaining_chunks_performed [of ?st2 "announced st" ?cur "[drop 4 (first_chunk st)]"]
      obtain m where m:
        "performed ?st2 (snd ?loop) [] (replicate m TIMEOUT_CHUNK)"
        "\<forall>i<m. ?cur + sum_list (take i (map continuation_payload (responses ?st2)))
                 < announced st"
        "\<forall>i. Suc i < m \<longrightarrow> (\<exists>f. pending ?st2 i = Inr f)"
        "m = 0 \<longrightarrow> announced st \<le> ?cur"
        "0 < m \<longrightarrow>
           (case pending ?st2 (m - 1) of
              Inl e \<Rightarrow> fst ?loop = Inl e
            | Inr f \<Rightarrow>
                announced st
                  \<le> ?cur + sum_list (take m (map continuation_payload (responses ?st2))))"
        by (elim exE conjE) (rule that; assumption)
      have a: "performed st (snd (interrogate_read st)) [buildReadConfigCommand]
                 (TIMEOUT_FIRST_CHUNK # replicate m TIMEOUT_CHUNK)"
        unfolding state
        using performed_exchange [OF m(1), of st buildReadConfigCommand TIMEOUT_FIRST_CHUNK]
        by simp
      have b: "\<forall>i<m. \<exists>f. pending st i = Inr f"
      proof (intro allI impI)
        fix i assume i: "i < m"
        show "\<exists>f. pending st i = Inr f"
        proof (cases i)
          case 0
          then show ?thesis by (simp add: Inr)
        next
          case (Suc j)
          with i m(3) have "\<exists>f. pending ?st2 j = Inr f"
            by simp
          then show ?thesis
            unfolding Suc shift .
        qed
      qed
      have c: "\<forall>i<m. received st i < announced st"
        using m(2) unfolding rec .
      have d: "case pending st m of
            Inl e \<Rightarrow> fst (interrogate_read st) = Inl e
          | Inr f \<Rightarrow>
              if length (first_chunk st) < 4
              then m = 0 \<and> fst (interrogate_read st) = Inl RangeError
              else announced st \<le> received st m"
      proof (cases m)
        case 0
        with m(4) have "announced st \<le> received st 0"
          by (simp add: received_def)
        then show ?thesis
          using False by (simp add: 0 Inr)
      next
        case (Suc j)
        with m(5) have "case pending st (Suc j) of
              Inl e \<Rightarrow> fst ?loop = Inl e
            | Inr f \<Rightarrow> announced st \<le> received st m"
          unfolding rec shift by simp
        then show ?thesis
          using False err by (simp add: Suc split: sum.splits)
      qed
      show ?thesis
      proof (intro exI [of _ m] conjI)
        show "0 < m \<longrightarrow> 4 \<le> length (first_chunk st)"
          using False by simp
      qed (rule a b c d)+
    qed
  qed
qed

lemma interrogate_performed:
  "\<exists>n. performed st (snd (interrogate st)) [buildReadConfigCommand]
          (TIMEOUT_FIRST_CHUNK # replicate n TIMEOUT_CHUNK)
      \<and> (\<forall>i<n. \<exists>f. pending st i = Inr f)
      \<and> (\<forall>i<n. received st i < announced st)
      \<and> (0 < n \<longrightarrow> 4 \<le> length (first_chunk st))
      \<and> (case pending st n of
            Inl e \<Rightarrow> fst (interrogate st) = Inl e
          | Inr f \<Rightarrow>
              if length (first_chunk st) < 4
              then n = 0 \<and> fst (interrogate st) = Inl RangeError
              else announced st \<le> received st n)"
proof -
  from interrogate_read_performed [of st] obtain n where n:
    "performed st (snd (interrogate_read st)) [buildReadConfigCommand]
          (TIMEOUT_FIRST_CHUNK # replicate n TIMEOUT_CHUNK)"
    "\<forall>i<n. \<exists>f. pending st i = Inr f"
    "\<forall>i<n. received st i < announced st"
    "0 < n \<longrightarrow> 4 \<le> length (first_chunk st)"
    "case pending st n of
            Inl e \<Rightarrow> fst (interrogate_read st) = Inl e
          | Inr f \<Rightarrow>
              if length (first_chunk st) < 4
              then n = 0 \<and> fst (interrogate_read st) = Inl RangeError
              else announced st \<le> received st n"
    by (elim exE conjE) (rule that; assumption)
  have last: "case pending st n of
            Inl e \<Rightarrow> fst (interrogate st) = Inl e
          | Inr f \<Rightarrow>
              if length (first_chunk st) < 4
              then n = 0 \<and> fst (interrogate st) = Inl RangeError
              else announced st \<le> received st n"
    using n(5) interrogate_error [of st] by (simp split: sum.splits if_splits)
  show ?thesis
    unfolding interrogate_state
    by (intro exI [of _ n] conjI) (rule n(1) n(2) n(3) n(4) last)+
qed

lemma await_refresh_performed: "performed st (snd (await_refresh st)) [] [TIMEOUT_REFRESH]"
  by (cases "pending st 0")
     (auto simp add: await_refresh_def readResponse_pending performed_def emit_def drop_Suc
        split: sum.split)

lemma performed_after_emit:
  "performed (emit ev st) st2 ws ts \<Longrightarrow> performed st st2 ws ts"
  by (simp add: performed_def emit_def)

lemma finish_upload_auto_performed:
  "performed st (snd (finish_upload p True st)) [] [TIMEOUT_REFRESH]"
  unfolding finish_upload_def
  by (simp add: performed_after_emit [OF performed_after_emit [OF await_refresh_performed]])

lemma finish_upload_rejected:
  assumes "exchange (\<lambda>f. validateAckResponse f DIRECT_WRITE_END) (pending st 0) = Inl e"
  shows "fst (finish_upload p False st) = Inl e
         \<and> performed st (snd (finish_upload p False st))
             [buildDirectWriteEndCommand (refreshMode p)] [TIMEOUT_ACK]"
  using assms
  by (cases "pending st 0")
     (auto simp add: finish_upload_def readResponse_pending writeCommand_def pending_def
        exchange_def performed_def drop_Suc Let_def split: sum.splits)

lemma finish_upload_acknowledged:
  assumes "exchange (\<lambda>f. validateAckResponse f DIRECT_WRITE_END) (pending st 0) = Inr ()"
  shows "performed st (snd (finish_upload p False st))
           [buildDirectWriteEndCommand (refreshMode p)] [TIMEOUT_ACK, TIMEOUT_REFRESH]"
proof -
  from assms obtain f where f: "pending st 0 = Inr f"
    "validateAckResponse f DIRECT_WRITE_END = Inr ()"
    by (auto simp add: exchange_def split: sum.splits)
  let ?st2 = "st\<lparr>responses := tl (responses st),
                  written := written st @ [buildDirectWriteEndCommand (refreshMode p)],
                  waits := waits st @ [TIMEOUT_ACK]\<rparr>"
  let ?st3 = "emit (OnStatusChange Upload_complete_refreshing) (emit OnUploadComplete ?st2)"
  have "readResponse TIMEOUT_ACK (writeCommand (buildDirectWriteEndCommand (refreshMode p)) st)
          = (pending st 0, ?st2)"
    by (simp add: readResponse_pending writeCommand_def pending_def)
  then have res: "finish_upload p False st = await_refresh ?st3"
    by (simp add: finish_upload_def f Let_def)
  have "performed ?st2 (snd (await_refresh ?st3)) [] [TIMEOUT_REFRESH]"
    by (rule performed_after_emit [OF performed_after_emit [OF await_refresh_performed]])
  from performed_exchange [OF this, of st "buildDirectWriteEndCommand (refreshMode p)" TIMEOUT_ACK]
  show ?thesis
    unfolding res by simp
qed

lemma executeUpload_rejected:
  assumes "exchange (\<lambda>f. validateAckResponse f DIRECT_WRITE_START) (pending st 0) = Inl e"
  shows "fst (executeUpload p st) = Inl e
         \<and> performed st (snd (executeUpload p st)) [start_frame p] [TIMEOUT_ACK]"
  using assms
  by (cases "pending st 0")
     (auto simp add: executeUpload_eq readResponse_pending writeCommand_def pending_def
        exchange_def performed_def drop_Suc split: sum.splits)

lemma executeUpload_acknowledged:
  assumes "exchange (\<lambda>f. validateAckResponse f DIRECT_WRITE_START) (pending st 0) = Inr ()"
  shows "executeUpload p st =
           (case sendDataChunks (chunked_payload p)
                   (st\<lparr>responses := tl (responses st),
                       written := written st @ [start_frame p],
                       waits := waits st @ [TIMEOUT_ACK]\<rparr>) of
              (Inl e, st3) \<Rightarrow> (Inl e, st3)
            | (Inr autoCompleted, st3) \<Rightarrow> finish_upload p autoCompleted st3)"
proof -
  from assms obtain f where f: "pending st 0 = Inr f"
    "validateAckResponse f DIRECT_WRITE_START = Inr ()"
    by (auto simp add: exchange_def split: sum.splits)
  have "readResponse TIMEOUT_ACK (writeCommand (start_frame p) st)
          = (pending st 0, st\<lparr>responses := tl (responses st),
                               written := written st @ [start_frame p],
                               waits := waits st @ [TIMEOUT_ACK]\<rparr>)"
    by (simp add: readResponse_pending writeCommand_def pending_def)
  then show ?thesis
    by (simp add: executeUpload_eq f)
qed

lemma sendDataChunks_loop_frame:
  assumes "b < length d" and "responses st = Inr f # rs"
  shows "sendDataChunks_loop d b st =
        (let st2 = st\<lparr>responses := rs,
                      written := written st @ [setUint16_be DIRECT_WRITE_DATA
                                                 @ take CHUNK_SIZE (drop b d)],
                      waits := waits st @ [TIMEOUT_ACK]\<rparr>
         in case response_command f of
              Inl e \<Rightarrow> (Inl e, st2)
            | Inr command \<Rightarrow>
                if command = DIRECT_WRITE_DATA then
                  sendDataChunks_loop d (min (b + CHUNK_SIZE) (length d))
                    (emit (OnProgress (int (min (b + CHUNK_SIZE) (length d)))
                             (int (length d))) st2)
                else if command = DIRECT_WRITE_END then
                  (Inr True, emit (OnProgress (int (length d)) (int (length d))) st2)
                else (Inl ProtocolError, st2))"
proof -
  have "responses (writeCommand (setUint16_be DIRECT_WRITE_DATA
                                     @ take CHUNK_SIZE (drop b d)) st) = Inr f # rs"
    using assms(2) by (simp add: writeCommand_def)
  from await_chunk_response_frame [OF this]
  have aw: "await_chunk_response (writeCommand (setUint16_be DIRECT_WRITE_DATA
                                     @ take CHUNK_SIZE (drop b d)) st)
        = (Inr f, st\<lparr>responses := rs,
                      written := written st @ [setUint16_be DIRECT_WRITE_DATA
                                                 @ take CHUNK_SIZE (drop b d)],
                      waits := waits st @ [TIMEOUT_ACK]\<rparr>)"
    by (simp add: writeCommand_def)
  show ?thesis
    unfolding sendDataChunks_loop_round [OF assms(1)] aw Let_def
    by (simp split: sum.split)
qed

lemma sendDataChunks_loop_silence:
  assumes "b < length d" and "responses st = [] \<or> responses st = [Inl BLETimeoutError]"
  shows "sendDataChunks_loop d b st =
           (Inl BLETimeoutError,
            st\<lparr>responses := [],
                written := written st @ [setUint16_be DIRECT_WRITE_DATA
                                           @ take CHUNK_SIZE (drop b d)],
                waits := waits st @ [TIMEOUT_ACK, TIMEOUT_REFRESH],
                events := events st @ [OnStatusChange Refreshing_display]\<rparr>)"
proof -
  have aw: "await_chunk_response (writeCommand (setUint16_be DIRECT_WRITE_DATA
                                     @ take CHUNK_SIZE (drop b d)) st)
        = (Inl BLETimeoutError,
            st\<lparr>responses := [],
                written := written st @ [setUint16_be DIRECT_WRITE_DATA
                                           @ take CHUNK_SIZE (drop b d)],
                waits := waits st @ [TIMEOUT_ACK, TIMEOUT_REFRESH],
                events := events st @ [OnStatusChange Refreshing_display]\<rparr>)"
    using assms(2)
    by (auto simp add: await_chunk_response_def readResponse_def writeCommand_def emit_def)
  show ?thesis
    unfolding sendDataChunks_loop_round [OF assms(1)] aw by simp
qed

lemma validateAck_mismatch:
  "validateAckResponse [0x00, 0x71] DIRECT_WRITE_START = Inl InvalidResponseError"
  "validateAckResponse [0x00, 0x71] DIRECT_WRITE_END = Inl InvalidResponseError"
  "validateAckResponse [0x00, 0x43] WRITE_CONFIG = Inl InvalidResponseError"
  by (simp_all add: validateAckResponse_def getUint16_be_def DIRECT_WRITE_START_def
      DIRECT_WRITE_END_def WRITE_CONFIG_def RESPONSE_HIGH_BIT_FLAG_def)

lemma parseFirmwareVersion_short: "parseFirmwareVersion [0x00, 0x43] = Inl InvalidResponseError"
  by (simp add: parseFirmwareVersion_def)

lemma pending_idle:
  "pending (idle\<lparr>responses := r # rs\<rparr>) 0 = r"
  "pending (idle\<lparr>responses := r # r2 # rs\<rparr>) 1 = r2"
  by (simp_all add: pending_def)

text \<open>
  \<^bold>\<open>C6.\<close> In any round of the chunk loop (a chunk remains to be sent): when the wait
  for the chunk's response times out, the sender waits once more, with
  \<open>TIMEOUT_REFRESH\<close>, and the outcome \<open>r\<close> of this second wait is treated as the
  chunk's response: an error of any class aborts, a data acknowledgement continues
  the loop, the end opcode auto-completes, any other frame aborts. When the first wait
  fails with an error other than a timeout, the upload aborts with it at once. When it
  delivers a frame, the round writes one frame and waits once, and a frame that is
  neither a data acknowledgement nor the end opcode aborts. These are all the rounds
  there are.

  No other wait is repeated and no frame is written twice. \<open>interrogate\<close>,
  \<open>readFirmwareVersion\<close>, \<open>writeConfig\<close> and the waits of the upload before and
  after the chunk loop stop at the first error they read, a timeout included, and an
  upload without timeouts stops at the first error of any other class. The upload
  writes its start frame once; when the wait for its acknowledgement fails or the
  reply is rejected it ends there with that error, otherwise it is the chunk loop
  followed by the end of the upload, which after auto-completion is a single refresh
  wait and otherwise one end frame and one wait, ending there when that wait fails or
  its reply is rejected, followed by a single refresh wait. \<open>readFirmwareVersion\<close>
  writes one frame and waits once whatever the reply, and its result is the outcome of
  that exchange; \<open>reboot\<close> writes one frame and waits for nothing.
  \<open>writeConfig\<close> writes the first \<open>k\<close> of its frames, once each and in order, and
  waits \<open>k\<close> times: every exchange before the last was a valid acknowledgement, the
  result is the outcome of the last, and success means that all frames were sent.
  \<open>interrogate\<close> writes one frame and waits \<open>n + 1\<close> times: every wait before the
  last delivered a frame and left the announced total incomplete; a failure of the
  last wait is the result, and a frame at the last wait either was a first frame too
  short to hold the total or completed the total.
\<close>

theorem only_the_chunk_wait_is_repeated:
  "(b < length d \<and> responses st1 = Inl BLETimeoutError # r # rs \<longrightarrow>
      sendDataChunks_loop d b st1 =
        (let st = st1\<lparr>responses := rs,
                       written := written st1 @ [setUint16_be DIRECT_WRITE_DATA
                                                  @ take CHUNK_SIZE (drop b d)],
                       waits := waits st1 @ [TIMEOUT_ACK, TIMEOUT_REFRESH],
                       events := events st1 @ [OnStatusChange Refreshing_display]\<rparr>
         in case r of
              Inl e \<Rightarrow> (Inl e, st)
            | Inr response \<Rightarrow>
                (case response_command response of
                   Inl e \<Rightarrow> (Inl e, st)
                 | Inr command \<Rightarrow>
                     if command = DIRECT_WRITE_DATA then
                       sendDataChunks_loop d (min (b + CHUNK_SIZE) (length d))
                         (emit (OnProgress (int (min (b + CHUNK_SIZE) (length d)))
                                  (int (length d))) st)
                     else if command = DIRECT_WRITE_END then
                       (Inr True, emit (OnProgress (int (length d)) (int (length d))) st)
                     else (Inl ProtocolError, st))))
   \<and> (b < length d \<and> responses st2 = Inl e2 # rs2 \<and> e2 \<noteq> BLETimeoutError \<longrightarrow>
        sendDataChunks_loop d b st2 =
          (Inl e2,
           st2\<lparr>responses := rs2,
               written := written st2 @ [setUint16_be DIRECT_WRITE_DATA
                                          @ take CHUNK_SIZE (drop b d)],
               waits := waits st2 @ [TIMEOUT_ACK]\<rparr>))
   \<and> (b < length d \<and> responses st5 = Inr f5 # rs5 \<longrightarrow>
        sendDataChunks_loop d b st5 =
          (let st = st5\<lparr>responses := rs5,
                         written := written st5 @ [setUint16_be DIRECT_WRITE_DATA
                                                    @ take CHUNK_SIZE (drop b d)],
                         waits := waits st5 @ [TIMEOUT_ACK]\<rparr>
           in case response_command f5 of
                Inl e \<Rightarrow> (Inl e, st)
              | Inr command \<Rightarrow>
                  if command = DIRECT_WRITE_DATA then
                    sendDataChunks_loop d (min (b + CHUNK_SIZE) (length d))
                      (emit (OnProgress (int (min (b + CHUNK_SIZE) (length d)))
                               (int (length d))) st)
                  else if command = DIRECT_WRITE_END then
                    (Inr True, emit (OnProgress (int (length d)) (int (length d))) st)
                  else (Inl ProtocolError, st)))
   \<and> (b < length d \<and> (responses st6 = [] \<or> responses st6 = [Inl BLETimeoutError]) \<longrightarrow>
        sendDataChunks_loop d b st6 =
          (Inl BLETimeoutError,
           st6\<lparr>responses := [],
               written := written st6 @ [setUint16_be DIRECT_WRITE_DATA
                                          @ take CHUNK_SIZE (drop b d)],
               waits := waits st6 @ [TIMEOUT_ACK, TIMEOUT_REFRESH],
               events := events st6 @ [OnStatusChange Refreshing_display]\<rparr>))
   \<and> (\<not> b < length d \<longrightarrow> sendDataChunks_loop d b st6 = (Inr False, st6))
   \<and> sendDataChunks d st6 = sendDataChunks_loop d 0 st6
   \<and> (responses st3 = map Inr fs @ Inl e # rest \<longrightarrow>
        stops_at_error fs e rest (interrogate st3)
        \<and> stops_at_error fs e rest (readFirmwareVersion st3)
        \<and> stops_at_error fs e rest (writeConfig c st3)
        \<and> stops_at_error fs e rest (finish_upload p autoCompleted st3)
        \<and> (e \<noteq> BLETimeoutError \<longrightarrow> stops_at_error fs e rest (executeUpload p st3)))
   \<and> (responses st4 = Inl e4 # rest4 \<longrightarrow>
        fst (executeUpload p st4) = Inl e4 \<and> responses (snd (executeUpload p st4)) = rest4)
   \<and> responses (snd (reboot st4)) = responses st4
   \<and> (exchange (\<lambda>f. validateAckResponse f DIRECT_WRITE_START) (pending st7 0) = Inl e7 \<longrightarrow>
        fst (executeUpload p st7) = Inl e7
        \<and> performed st7 (snd (executeUpload p st7)) [start_frame p] [TIMEOUT_ACK])
   \<and> (exchange (\<lambda>f. validateAckResponse f DIRECT_WRITE_START) (pending st7 0) = Inr () \<longrightarrow>
        executeUpload p st7 =
          (case sendDataChunks (chunked_payload p)
                  (st7\<lparr>responses := tl (responses st7),
                       written := written st7 @ [start_frame p],
                       waits := waits st7 @ [TIMEOUT_ACK]\<rparr>) of
             (Inl e, st) \<Rightarrow> (Inl e, st)
           | (Inr autoCompleted, st) \<Rightarrow> finish_upload p autoCompleted st))
   \<and> performed st7 (snd (finish_upload p True st7)) [] [TIMEOUT_REFRESH]
   \<and> (exchange (\<lambda>f. validateAckResponse f DIRECT_WRITE_END) (pending st7 0) = Inl e7 \<longrightarrow>
        fst (finish_upload p False st7) = Inl e7
        \<and> performed st7 (snd (finish_upload p False st7))
            [buildDirectWriteEndCommand (refreshMode p)] [TIMEOUT_ACK])
   \<and> (exchange (\<lambda>f. validateAckResponse f DIRECT_WRITE_END) (pending st7 0) = Inr () \<longrightarrow>
        performed st7 (snd (finish_upload p False st7))
          [buildDirectWriteEndCommand (refreshMode p)] [TIMEOUT_ACK, TIMEOUT_REFRESH])
   \<and> performed st8 (snd (readFirmwareVersion st8)) [buildReadFwVersionCommand] [TIMEOUT_ACK]
   \<and> fst (readFirmwareVersion st8) = exchange parseFirmwareVersion (pending st8 0)
   \<and> performed st8 (snd (reboot st8)) [buildRebootCommand] []
   \<and> fst (reboot st8) = Inr ()
   \<and> (displays c = [] \<longrightarrow> writeConfig c st8 = (Inl Error, st8))
   \<and> (displays c \<noteq> [] \<and> serializeConfig c = Inr configData \<longrightarrow>
        (\<exists>k. 1 \<le> k \<and> k \<le> length (config_frames configData)
           \<and> performed st8 (snd (writeConfig c st8)) (take k (config_frames configData))
                 (replicate k TIMEOUT_ACK)
           \<and> (\<forall>i. Suc i < k \<longrightarrow> exchange (config_ack i) (pending st8 i) = Inr ())
           \<and> fst (writeConfig c st8) = exchange (config_ack (k - 1)) (pending st8 (k - 1))
           \<and> (fst (writeConfig c st8) = Inr () \<longrightarrow> k = length (config_frames configData))))
   \<and> (\<exists>n. performed st8 (snd (interrogate st8)) [buildReadConfigCommand]
              (TIMEOUT_FIRST_CHUNK # replicate n TIMEOUT_CHUNK)
          \<and> (\<forall>i<n. \<exists>f. pending st8 i = Inr f)
          \<and> (\<forall>i<n. received st8 i < announced st8)
          \<and> (0 < n \<longrightarrow> 4 \<le> length (first_chunk st8))
          \<and> (case pending st8 n of
                Inl e \<Rightarrow> fst (interrogate st8) = Inl e
              | Inr f \<Rightarrow>
                  if length (first_chunk st8) < 4
                  then n = 0 \<and> fst (interrogate st8) = Inl RangeError
                  else announced st8 \<le> received st8 n))"
proof -
  have c1: "(b < length d \<and> responses st1 = Inl BLETimeoutError # r # rs \<longrightarrow>
      sendDataChunks_loop d b st1 =
        (let st = st1\<lparr>responses := rs,
                       written := written st1 @ [setUint16_be DIRECT_WRITE_DATA
                                                  @ take CHUNK_SIZE (drop b d)],
                       waits := waits st1 @ [TIMEOUT_ACK, TIMEOUT_REFRESH],
                       events := events st1 @ [OnStatusChange Refreshing_display]\<rparr>
         in case r of
              Inl e \<Rightarrow> (Inl e, st)
            | Inr response \<Rightarrow>
                (case response_command response of
                   Inl e \<Rightarrow> (Inl e, st)
                 | Inr command \<Rightarrow>
                     if command = DIRECT_WRITE_DATA then
                       sendDataChunks_loop d (min (b + CHUNK_SIZE) (length d))
                         (emit (OnProgress (int (min (b + CHUNK_SIZE) (length d)))
                                  (int (length d))) st)
                     else if command = DIRECT_WRITE_END then
                       (Inr True, emit (OnProgress (int (length d)) (int (length d))) st)
                     else (Inl ProtocolError, st))))"
  proof (intro impI)
    assume a: "b < length d \<and> responses st1 = Inl BLETimeoutError # r # rs"
    have "responses (writeCommand (setUint16_be DIRECT_WRITE_DATA
                                     @ take CHUNK_SIZE (drop b d)) st1)
            = Inl BLETimeoutError # r # rs"
      using a by (simp add: writeCommand_def)
    from await_chunk_response_timeout [OF this]
    have aw: "await_chunk_response (writeCommand (setUint16_be DIRECT_WRITE_DATA
                                     @ take CHUNK_SIZE (drop b d)) st1)
        = (r, st1\<lparr>responses := rs,
                  written := written st1 @ [setUint16_be DIRECT_WRITE_DATA
                                             @ take CHUNK_SIZE (drop b d)],
                  waits := waits st1 @ [TIMEOUT_ACK, TIMEOUT_REFRESH],
                  events := events st1 @ [OnStatusChange Refreshing_display]\<rparr>)"
      by (simp add: writeCommand_def)
    from a have b: "b < length d"
      by simp
    show "sendDataChunks_loop d b st1 =
        (let st = st1\<lparr>responses := rs,
                       written := written st1 @ [setUint16_be DIRECT_WRITE_DATA
                                                  @ take CHUNK_SIZE (drop b d)],
                       waits := waits st1 @ [TIMEOUT_ACK, TIMEOUT_REFRESH],
                       events := events st1 @ [OnStatusChange Refreshing_display]\<rparr>
         in case r of
              Inl e \<Rightarrow> (Inl e, st)
            | Inr response \<Rightarrow>
                (case response_command response of
                   Inl e \<Rightarrow> (Inl e, st)
                 | Inr command \<Rightarrow>
                     if command = DIRECT_WRITE_DATA then
                       sendDataChunks_loop d (min (b + CHUNK_SIZE) (length d))
                         (emit (OnProgress (int (min (b + CHUNK_SIZE) (length d)))
                                  (int (length d))) st)
                     else if command = DIRECT_WRITE_END then
                       (Inr True, emit (OnProgress (int (length d)) (int (length d))) st)
                     else (Inl ProtocolError, st)))"
      unfolding sendDataChunks_loop_round [OF b] aw Let_def
      by (simp split: sum.split)
  qed
  have c2: "(b < length d \<and> responses st2 = Inl e2 # rs2 \<and> e2 \<noteq> BLETimeoutError \<longrightarrow>
        sendDataChunks_loop d b st2 =
          (Inl e2,
           st2\<lparr>responses := rs2,
               written := written st2 @ [setUint16_be DIRECT_WRITE_DATA
                                          @ take CHUNK_SIZE (drop b d)],
               waits := waits st2 @ [TIMEOUT_ACK]\<rparr>))"
  proof (intro impI)
    assume a: "b < length d \<and> responses st2 = Inl e2 # rs2 \<and> e2 \<noteq> BLETimeoutError"
    have "responses (writeCommand (setUint16_be DIRECT_WRITE_DATA
                                     @ take CHUNK_SIZE (drop b d)) st2)
            = Inl e2 # rs2"
      using a by (simp add: writeCommand_def)
    from await_chunk_response_error [OF this] a
    show "sendDataChunks_loop d b st2 =
          (Inl e2,
           st2\<lparr>responses := rs2,
               written := written st2 @ [setUint16_be DIRECT_WRITE_DATA
                                          @ take CHUNK_SIZE (drop b d)],
               waits := waits st2 @ [TIMEOUT_ACK]\<rparr>)"
      by (simp add: sendDataChunks_loop_round writeCommand_def)
  qed
  have c3: "(b < length d \<and> responses st5 = Inr f5 # rs5 \<longrightarrow>
        sendDataChunks_loop d b st5 =
          (let st = st5\<lparr>responses := rs5,
                         written := written st5 @ [setUint16_be DIRECT_WRITE_DATA
                                                    @ take CHUNK_SIZE (drop b d)],
                         waits := waits st5 @ [TIMEOUT_ACK]\<rparr>
           in case response_command f5 of
                Inl e \<Rightarrow> (Inl e, st)
              | Inr command \<Rightarrow>
                  if command = DIRECT_WRITE_DATA then
                    sendDataChunks_loop d (min (b + CHUNK_SIZE) (length d))
                      (emit (OnProgress (int (min (b + CHUNK_SIZE) (length d)))
                               (int (length d))) st)
                  else if command = DIRECT_WRITE_END then
                    (Inr True, emit (OnProgress (int (length d)) (int (length d))) st)
                  else (Inl ProtocolError, st)))"
    by (intro impI, elim conjE, rule sendDataChunks_loop_frame; assumption)
  have c4: "(b < length d \<and> (responses st6 = [] \<or> responses st6 = [Inl BLETimeoutError]) \<longrightarrow>
        sendDataChunks_loop d b st6 =
          (Inl BLETimeoutError,
           st6\<lparr>responses := [],
               written := written st6 @ [setUint16_be DIRECT_WRITE_DATA
                                          @ take CHUNK_SIZE (drop b d)],
               waits := waits st6 @ [TIMEOUT_ACK, TIMEOUT_REFRESH],
               events := events st6 @ [OnStatusChange Refreshing_display]\<rparr>))"
    by (intro impI, elim conjE, rule sendDataChunks_loop_silence; assumption)
  have c5: "(\<not> b < length d \<longrightarrow> sendDataChunks_loop d b st6 = (Inr False, st6))"
    by (intro impI) (rule sendDataChunks_loop_done)
  have c6: "sendDataChunks d st6 = sendDataChunks_loop d 0 st6"
    by (rule sendDataChunks_def)
  have c7: "(responses st3 = map Inr fs @ Inl e # rest \<longrightarrow>
        stops_at_error fs e rest (interrogate st3)
        \<and> stops_at_error fs e rest (readFirmwareVersion st3)
        \<and> stops_at_error fs e rest (writeConfig c st3)
        \<and> stops_at_error fs e rest (finish_upload p autoCompleted st3)
        \<and> (e \<noteq> BLETimeoutError \<longrightarrow> stops_at_error fs e rest (executeUpload p st3)))"
    by (intro conjI impI)
       (simp_all only: interrogate_stops readFirmwareVersion_stops writeConfig_stops
          finish_upload_stops executeUpload_stops not_False_eq_True)
  have c8: "(responses st4 = Inl e4 # rest4 \<longrightarrow>
        fst (executeUpload p st4) = Inl e4 \<and> responses (snd (executeUpload p st4)) = rest4)"
    by (simp add: executeUpload_eq readResponse_def writeCommand_def)
  have c9: "responses (snd (reboot st4)) = responses st4"
    by (simp add: reboot_def writeCommand_def)
  have c10: "(exchange (\<lambda>f. validateAckResponse f DIRECT_WRITE_START) (pending st7 0) = Inl e7 \<longrightarrow>
        fst (executeUpload p st7) = Inl e7
        \<and> performed st7 (snd (executeUpload p st7)) [start_frame p] [TIMEOUT_ACK])"
    by (intro impI) (rule executeUpload_rejected)
  have c11: "(exchange (\<lambda>f. validateAckResponse f DIRECT_WRITE_START) (pending st7 0) = Inr () \<longrightarrow>
        executeUpload p st7 =
          (case sendDataChunks (chunked_payload p)
                  (st7\<lparr>responses := tl (responses st7),
                       written := written st7 @ [start_frame p],
                       waits := waits st7 @ [TIMEOUT_ACK]\<rparr>) of
             (Inl e, st) \<Rightarrow> (Inl e, st)
           | (Inr autoCompleted, st) \<Rightarrow> finish_upload p autoCompleted st))"
    by (intro impI) (rule executeUpload_acknowledged)
  have c12: "performed st7 (snd (finish_upload p True st7)) [] [TIMEOUT_REFRESH]"
    by (rule finish_upload_auto_performed)
  have c13: "(exchange (\<lambda>f. validateAckResponse f DIRECT_WRITE_END) (pending st7 0) = Inl e7 \<longrightarrow>
        fst (finish_upload p False st7) = Inl e7
        \<and> performed st7 (snd (finish_upload p False st7))
            [buildDirectWriteEndCommand (refreshMode p)] [TIMEOUT_ACK])"
    by (intro impI) (rule finish_upload_rejected)
  have c14: "(exchange (\<lambda>f. validateAckResponse f DIRECT_WRITE_END) (pending st7 0) = Inr () \<longrightarrow>
        performed st7 (snd (finish_upload p False st7))
          [buildDirectWriteEndCommand (refreshMode p)] [TIMEOUT_ACK, TIMEOUT_REFRESH])"
    by (intro impI) (rule finish_upload_acknowledged)
  have c15: "performed st8 (snd (readFirmwareVersion st8)) [buildReadFwVersionCommand] [TIMEOUT_ACK]"
    by (rule conjunct1 [OF readFirmwareVersion_performed])
  have c16: "fst (readFirmwareVersion st8) = exchange parseFirmwareVersion (pending st8 0)"
    by (rule conjunct2 [OF readFirmwareVersion_performed])
  have c17: "performed st8 (snd (reboot st8)) [buildRebootCommand] []"
    by (rule conjunct1 [OF reboot_performed])
  have c18: "fst (reboot st8) = Inr ()"
    by (rule conjunct2 [OF reboot_performed])
  have c19: "(displays c = [] \<longrightarrow> writeConfig c st8 = (Inl Error, st8))"
    by (intro impI) (rule writeConfig_no_display)
  have c20: "(displays c \<noteq> [] \<and> serializeConfig c = Inr configData \<longrightarrow>
        (\<exists>k. 1 \<le> k \<and> k \<le> length (config_frames configData)
           \<and> performed st8 (snd (writeConfig c st8)) (take k (config_frames configData))
                 (replicate k TIMEOUT_ACK)
           \<and> (\<forall>i. Suc i < k \<longrightarrow> exchange (config_ack i) (pending st8 i) = Inr ())
           \<and> fst (writeConfig c st8) = exchange (config_ack (k - 1)) (pending st8 (k - 1))
           \<and> (fst (writeConfig c st8) = Inr () \<longrightarrow> k = length (config_frames configData))))"
    by (intro impI, elim conjE, rule writeConfig_performed; assumption)
  have c21: "(\<exists>n. performed st8 (snd (interrogate st8)) [buildReadConfigCommand]
              (TIMEOUT_FIRST_CHUNK # replicate n TIMEOUT_CHUNK)
          \<and> (\<forall>i<n. \<exists>f. pending st8 i = Inr f)
          \<and> (\<forall>i<n. received st8 i < announced st8)
          \<and> (0 < n \<longrightarrow> 4 \<le> length (first_chunk st8))
          \<and> (case pending st8 n of
                Inl e \<Rightarrow> fst (interrogate st8) = Inl e
              | Inr f \<Rightarrow>
                  if length (first_chunk st8) < 4
                  then n = 0 \<and> fst (interrogate st8) = Inl RangeError
                  else announced st8 \<le> received st8 n))"
    by (rule interrogate_performed)
  show ?thesis
    by (intro conjI) (rule c1 c2 c3 c4 c5 c6 c7 c8 c9 c10 c11 c12 c13 c14 c15 c16 c17 c18 c19 c20 c21)+
qed

theorem only_the_chunk_wait_is_repeated_witness:
  "sendDataChunks_loop (replicate 300 0x55) 0
       (idle\<lparr>responses := [Inl BLETimeoutError, Inr [0x00, 0x72]]\<rparr>)
     = (Inr True,
        \<lparr>responses = [], written = [[0x00, 0x71] @ replicate 230 0x55],
         waits = [TIMEOUT_ACK, TIMEOUT_REFRESH],
         events = [OnStatusChange Refreshing_display, OnProgress 300 300]\<rparr>)
   \<and> sendDataChunks_loop (replicate 300 0x55) 0
       (idle\<lparr>responses := [Inl BLEConnectionError, Inr [0x00, 0x71]]\<rparr>)
     = (Inl BLEConnectionError,
        \<lparr>responses = [Inr [0x00, 0x71]], written = [[0x00, 0x71] @ replicate 230 0x55],
         waits = [TIMEOUT_ACK], events = []\<rparr>)
   \<and> sendDataChunks_loop (replicate 300 0x55) 0
       (idle\<lparr>responses := [Inr [0x00, 0x73], Inr [0x00, 0x71]]\<rparr>)
     = (Inl ProtocolError,
        \<lparr>responses = [Inr [0x00, 0x71]], written = [[0x00, 0x71] @ replicate 230 0x55],
         waits = [TIMEOUT_ACK], events = []\<rparr>)
   \<and> sendDataChunks_loop (replicate 300 0x55) 0 idle
     = (Inl BLETimeoutError,
        \<lparr>responses = [], written = [[0x00, 0x71] @ replicate 230 0x55],
         waits = [TIMEOUT_ACK, TIMEOUT_REFRESH],
         events = [OnStatusChange Refreshing_display]\<rparr>)
   \<and> sendDataChunks_loop (replicate 300 0x55) 300 idle = (Inr False, idle)
   \<and> stops_at_error [[0x00, 0x40, 0x00, 0x00, 0x10, 0x00, 0xAA]] BLEConnectionError [Inr [0x00, 0x40]]
         (interrogate
            (idle\<lparr>responses := [Inr [0x00, 0x40, 0x00, 0x00, 0x10, 0x00, 0xAA], Inl BLEConnectionError, Inr [0x00, 0x40]]\<rparr>))
   \<and> stops_at_error [[0x00, 0x70]] BLEConnectionError [Inr [0x00, 0x40]]
         (executeUpload sample_upload
            (idle\<lparr>responses := [Inr [0x00, 0x70], Inl BLEConnectionError, Inr [0x00, 0x40]]\<rparr>))
   \<and> fst (executeUpload sample_upload
              (idle\<lparr>responses := [Inl BLETimeoutError, Inr [0x00, 0x70]]\<rparr>))
       = Inl BLETimeoutError
   \<and> responses (snd (executeUpload sample_upload
                          (idle\<lparr>responses := [Inl BLETimeoutError, Inr [0x00, 0x70]]\<rparr>)))
       = [Inr [0x00, 0x70]]
   \<and> fst (executeUpload sample_upload
              (idle\<lparr>responses := [Inr [0x00, 0x71], Inr [0x00, 0x70]]\<rparr>))
       = Inl InvalidResponseError
   \<and> performed (idle\<lparr>responses := [Inr [0x00, 0x71], Inr [0x00, 0x70]]\<rparr>)
       (snd (executeUpload sample_upload
               (idle\<lparr>responses := [Inr [0x00, 0x71], Inr [0x00, 0x70]]\<rparr>)))
       [start_frame sample_upload] [TIMEOUT_ACK]
   \<and> fst (finish_upload sample_upload False
              (idle\<lparr>responses := [Inr [0x00, 0x71], Inr [0x00, 0x70]]\<rparr>))
       = Inl InvalidResponseError
   \<and> performed (idle\<lparr>responses := [Inr [0x00, 0x71], Inr [0x00, 0x70]]\<rparr>)
       (snd (finish_upload sample_upload False
               (idle\<lparr>responses := [Inr [0x00, 0x71], Inr [0x00, 0x70]]\<rparr>)))
       [buildDirectWriteEndCommand (refreshMode sample_upload)] [TIMEOUT_ACK]
   \<and> executeUpload sample_upload (idle\<lparr>responses := [Inr [0x00, 0x70]]\<rparr>)
       = (case sendDataChunks (chunked_payload sample_upload)
                 ((idle\<lparr>responses := [Inr [0x00, 0x70]]\<rparr>)
                    \<lparr>responses := tl (responses (idle\<lparr>responses := [Inr [0x00, 0x70]]\<rparr>)),
                     written := written (idle\<lparr>responses := [Inr [0x00, 0x70]]\<rparr>)
                                @ [start_frame sample_upload],
                     waits := waits (idle\<lparr>responses := [Inr [0x00, 0x70]]\<rparr>) @ [TIMEOUT_ACK]\<rparr>) of
            (Inl e, st) \<Rightarrow> (Inl e, st)
          | (Inr autoCompleted, st) \<Rightarrow> finish_upload sample_upload autoCompleted st)
   \<and> performed (idle\<lparr>responses := [Inr [0x00, 0x72], Inr [0x00, 0x72]]\<rparr>)
       (snd (finish_upload sample_upload False
               (idle\<lparr>responses := [Inr [0x00, 0x72], Inr [0x00, 0x72]]\<rparr>)))
       [buildDirectWriteEndCommand (refreshMode sample_upload)] [TIMEOUT_ACK, TIMEOUT_REFRESH]
   \<and> performed
       (idle\<lparr>responses := [Inr [0x00, 0x43], Inr [0x00, 0x43, 0x01, 0x02, 0x01, 0xAB]]\<rparr>)
       (snd (readFirmwareVersion
               (idle\<lparr>responses := [Inr [0x00, 0x43], Inr [0x00, 0x43, 0x01, 0x02, 0x01, 0xAB]]\<rparr>)))
       [buildReadFwVersionCommand] [TIMEOUT_ACK]
   \<and> fst (readFirmwareVersion
              (idle\<lparr>responses := [Inr [0x00, 0x43], Inr [0x00, 0x43, 0x01, 0x02, 0x01, 0xAB]]\<rparr>))
       = Inl InvalidResponseError
   \<and> fst (writeConfig sample_config_full
              (idle\<lparr>responses := [Inr [0x00, 0x43], Inr [0x00, 0x43, 0x01, 0x02, 0x01, 0xAB]]\<rparr>))
       = Inl InvalidResponseError
   \<and> waits (snd (writeConfig sample_config_full
                      (idle\<lparr>responses := [Inr [0x00, 0x43], Inr [0x00, 0x43, 0x01, 0x02, 0x01, 0xAB]]\<rparr>)))
       = [TIMEOUT_ACK]
   \<and> length (written (snd (writeConfig sample_config_full
                               (idle\<lparr>responses := [Inr [0x00, 0x43], Inr [0x00, 0x43, 0x01, 0x02, 0x01, 0xAB]]\<rparr>))))
       = 1
   \<and> fst (interrogate
              (idle\<lparr>responses := [Inr [0x00, 0x40, 0x00, 0x00, 0x10, 0x00, 0xAA], Inl BLEConnectionError, Inr [0x00, 0x40]]\<rparr>))
       = Inl BLEConnectionError
   \<and> performed
       (idle\<lparr>responses := [Inr [0x00, 0x40, 0x00, 0x00, 0x10, 0x00, 0xAA], Inl BLEConnectionError, Inr [0x00, 0x40]]\<rparr>)
       (snd (interrogate
               (idle\<lparr>responses := [Inr [0x00, 0x40, 0x00, 0x00, 0x10, 0x00, 0xAA], Inl BLEConnectionError, Inr [0x00, 0x40]]\<rparr>)))
       [buildReadConfigCommand] [TIMEOUT_FIRST_CHUNK, TIMEOUT_CHUNK]
   \<and> writeConfig (empty_config 1) idle = (Inl Error, idle)"
proof -
  note A = only_the_chunk_wait_is_repeated
    [where b = 0 and d = "replicate 300 0x55"
       and ?st1.0 = "idle\<lparr>responses := [Inl BLETimeoutError, Inr [0x00, 0x72]]\<rparr>"
       and r = "Inr [0x00, 0x72]" and rs = "[]"
       and ?st2.0 = "idle\<lparr>responses := [Inl BLEConnectionError, Inr [0x00, 0x71]]\<rparr>"
       and ?e2.0 = BLEConnectionError and ?rs2.0 = "[Inr [0x00, 0x71]]"
       and ?st5.0 = "idle\<lparr>responses := [Inr [0x00, 0x73], Inr [0x00, 0x71]]\<rparr>"
       and ?f5.0 = "[0x00, 0x73]" and ?rs5.0 = "[Inr [0x00, 0x71]]"
       and ?st6.0 = idle
       and ?st3.0 = "idle\<lparr>responses := [Inr [0x00, 0x70], Inl BLEConnectionError, Inr [0x00, 0x40]]\<rparr>"
       and fs = "[[0x00, 0x70]]" and e = BLEConnectionError and rest = "[Inr [0x00, 0x40]]"
       and c = sample_config_full and p = sample_upload and autoCompleted = False
       and ?st4.0 = "idle\<lparr>responses := [Inl BLETimeoutError, Inr [0x00, 0x70]]\<rparr>"
       and ?e4.0 = BLETimeoutError and ?rest4.0 = "[Inr [0x00, 0x70]]"
       and ?st7.0 = "idle\<lparr>responses := [Inr [0x00, 0x71], Inr [0x00, 0x70]]\<rparr>"
       and ?e7.0 = InvalidResponseError
       and ?st8.0 = "idle\<lparr>responses := [Inr [0x00, 0x43], Inr [0x00, 0x43, 0x01, 0x02, 0x01, 0xAB]]\<rparr>"
       and configData = "concat (config_chunks sample_config_full)
        @ setUint16_le (calculateConfigCrc (concat (config_chunks sample_config_full)))"]
  note B = only_the_chunk_wait_is_repeated
    [where b = 300 and d = "replicate 300 0x55" and ?st6.0 = idle
       and ?st3.0 = "idle\<lparr>responses := [Inr [0x00, 0x40, 0x00, 0x00, 0x10, 0x00, 0xAA], Inl BLEConnectionError, Inr [0x00, 0x40]]\<rparr>"
       and fs = "[[0x00, 0x40, 0x00, 0x00, 0x10, 0x00, 0xAA]]" and e = BLEConnectionError and rest = "[Inr [0x00, 0x40]]"
       and c = sample_config_full and p = sample_upload and autoCompleted = False
       and ?st7.0 = "idle\<lparr>responses := [Inr [0x00, 0x70]]\<rparr>"
       and ?st8.0 = "idle\<lparr>responses := [Inr [0x00, 0x40, 0x00, 0x00, 0x10, 0x00, 0xAA], Inl BLEConnectionError, Inr [0x00, 0x40]]\<rparr>"]
  note C = only_the_chunk_wait_is_repeated
    [where ?st7.0 = "idle\<lparr>responses := [Inr [0x00, 0x72], Inr [0x00, 0x72]]\<rparr>"
       and p = sample_upload and c = "empty_config 1" and ?st8.0 = idle]
  from conjunct1 [OF A]
  have w1: "sendDataChunks_loop (replicate 300 0x55) 0
       (idle\<lparr>responses := [Inl BLETimeoutError, Inr [0x00, 0x72]]\<rparr>)
     = (Inr True,
        \<lparr>responses = [], written = [[0x00, 0x71] @ replicate 230 0x55],
         waits = [TIMEOUT_ACK, TIMEOUT_REFRESH],
         events = [OnStatusChange Refreshing_display, OnProgress 300 300]\<rparr>)"
    by (simp add: idle_def response_command_simps emit_def setUint16_be_def DIRECT_WRITE_DATA_def
        DIRECT_WRITE_END_def CHUNK_SIZE_def Let_def)
  from conjunct1 [OF conjunct2 [OF A]]
  have w2: "sendDataChunks_loop (replicate 300 0x55) 0
       (idle\<lparr>responses := [Inl BLEConnectionError, Inr [0x00, 0x71]]\<rparr>)
     = (Inl BLEConnectionError,
        \<lparr>responses = [Inr [0x00, 0x71]], written = [[0x00, 0x71] @ replicate 230 0x55],
         waits = [TIMEOUT_ACK], events = []\<rparr>)"
    by (simp add: idle_def response_command_simps emit_def setUint16_be_def DIRECT_WRITE_DATA_def
        DIRECT_WRITE_END_def CHUNK_SIZE_def Let_def)
  from conjunct1 [OF conjunct2 [OF conjunct2 [OF A]]]
  have w3: "sendDataChunks_loop (replicate 300 0x55) 0
       (idle\<lparr>responses := [Inr [0x00, 0x73], Inr [0x00, 0x71]]\<rparr>)
     = (Inl ProtocolError,
        \<lparr>responses = [Inr [0x00, 0x71]], written = [[0x00, 0x71] @ replicate 230 0x55],
         waits = [TIMEOUT_ACK], events = []\<rparr>)"
    by (simp add: idle_def response_command_simps emit_def setUint16_be_def DIRECT_WRITE_DATA_def
        DIRECT_WRITE_END_def CHUNK_SIZE_def Let_def)
  from conjunct1 [OF conjunct2 [OF conjunct2 [OF conjunct2 [OF A]]]]
  have w4: "sendDataChunks_loop (replicate 300 0x55) 0 idle
     = (Inl BLETimeoutError,
        \<lparr>responses = [], written = [[0x00, 0x71] @ replicate 230 0x55],
         waits = [TIMEOUT_ACK, TIMEOUT_REFRESH],
         events = [OnStatusChange Refreshing_display]\<rparr>)"
    by (simp add: idle_def response_command_simps emit_def setUint16_be_def DIRECT_WRITE_DATA_def
        DIRECT_WRITE_END_def CHUNK_SIZE_def Let_def)
  from conjunct1 [OF conjunct2 [OF conjunct2 [OF conjunct2 [OF conjunct2 [OF B]]]]]
  have w5: "sendDataChunks_loop (replicate 300 0x55) 300 idle = (Inr False, idle)"
    by simp
  have h6: "responses (idle\<lparr>responses := [Inr [0x00, 0x40, 0x00, 0x00, 0x10, 0x00, 0xAA], Inl BLEConnectionError, Inr [0x00, 0x40]]\<rparr>)
      = map Inr [[0x00, 0x40, 0x00, 0x00, 0x10, 0x00, 0xAA]] @ Inl BLEConnectionError # [Inr [0x00, 0x40]]"
    by (simp add: idle_def)
  note w6 = conjunct1 [OF mp [OF conjunct1 [OF conjunct2 [OF conjunct2 [OF conjunct2 [OF conjunct2 [OF conjunct2 [OF conjunct2 [OF B]]]]]]] h6]]
  have h7: "responses (idle\<lparr>responses := [Inr [0x00, 0x70], Inl BLEConnectionError, Inr [0x00, 0x40]]\<rparr>)
      = map Inr [[0x00, 0x70]] @ Inl BLEConnectionError # [Inr [0x00, 0x40]]"
    by (simp add: idle_def)
  have ne: "BLEConnectionError \<noteq> BLETimeoutError"
    by simp
  note w7 = mp [OF conjunct2 [OF conjunct2 [OF conjunct2 [OF conjunct2 [OF mp [OF conjunct1 [OF conjunct2 [OF conjunct2 [OF conjunct2 [OF conjunct2 [OF conjunct2 [OF conjunct2 [OF A]]]]]]] h7]]]]] ne]
  have h8: "responses (idle\<lparr>responses := [Inl BLETimeoutError, Inr [0x00, 0x70]]\<rparr>)
      = Inl BLETimeoutError # [Inr [0x00, 0x70]]"
    by (simp add: idle_def)
  note w8 = mp [OF conjunct1 [OF conjunct2 [OF conjunct2 [OF conjunct2 [OF conjunct2 [OF conjunct2 [OF conjunct2 [OF conjunct2 [OF A]]]]]]]] h8]
  note w8a = conjunct1 [OF w8] and w8b = conjunct2 [OF w8]
  have h9: "exchange (\<lambda>f. validateAckResponse f DIRECT_WRITE_START)
      (pending (idle\<lparr>responses := [Inr [0x00, 0x71], Inr [0x00, 0x70]]\<rparr>) 0) = Inl InvalidResponseError"
    by (simp add: exchange_def pending_idle validateAck_mismatch)
  note w9 = mp [OF conjunct1 [OF conjunct2 [OF conjunct2 [OF conjunct2 [OF conjunct2 [OF conjunct2 [OF conjunct2 [OF conjunct2 [OF conjunct2 [OF conjunct2 [OF A]]]]]]]]]] h9]
  note w9a = conjunct1 [OF w9] and w9b = conjunct2 [OF w9]
  have h10: "exchange (\<lambda>f. validateAckResponse f DIRECT_WRITE_END)
      (pending (idle\<lparr>responses := [Inr [0x00, 0x71], Inr [0x00, 0x70]]\<rparr>) 0) = Inl InvalidResponseError"
    by (simp add: exchange_def pending_idle validateAck_mismatch)
  note w10 = mp [OF conjunct1 [OF conjunct2 [OF conjunct2 [OF conjunct2 [OF conjunct2 [OF conjunct2 [OF conjunct2 [OF conjunct2 [OF conjunct2 [OF conjunct2 [OF conjunct2 [OF conjunct2 [OF conjunct2 [OF A]]]]]]]]]]]]] h10]
  note w10a = conjunct1 [OF w10] and w10b = conjunct2 [OF w10]
  have h11: "exchange (\<lambda>f. validateAckResponse f DIRECT_WRITE_START)
      (pending (idle\<lparr>responses := [Inr [0x00, 0x70]]\<rparr>) 0) = Inr ()"
    by (simp add: exchange_def pending_idle validateAck_simps)
  note w11 = mp [OF conjunct1 [OF conjunct2 [OF conjunct2 [OF conjunct2 [OF conjunct2 [OF conjunct2 [OF conjunct2 [OF conjunct2 [OF conjunct2 [OF conjunct2 [OF conjunct2 [OF B]]]]]]]]]]] h11]
  have h12: "exchange (\<lambda>f. validateAckResponse f DIRECT_WRITE_END)
      (pending (idle\<lparr>responses := [Inr [0x00, 0x72], Inr [0x00, 0x72]]\<rparr>) 0) = Inr ()"
    by (simp add: exchange_def pending_idle validateAck_simps)
  note w12 = mp [OF conjunct1 [OF conjunct2 [OF conjunct2 [OF conjunct2 [OF conjunct2 [OF conjunct2 [OF conjunct2 [OF conjunct2 [OF conjunct2 [OF conjunct2 [OF conjunct2 [OF conjunct2 [OF conjunct2 [OF conjunct2 [OF C]]]]]]]]]]]]]] h12]
  note w13a = conjunct1 [OF conjunct2 [OF conjunct2 [OF conjunct2 [OF conjunct2 [OF conjunct2 [OF conjunct2 [OF conjunct2 [OF conjunct2 [OF conjunct2 [OF conjunct2 [OF conjunct2 [OF conjunct2 [OF conjunct2 [OF conjunct2 [OF A]]]]]]]]]]]]]]]
  from conjunct1 [OF conjunct2 [OF conjunct2 [OF conjunct2 [OF conjunct2 [OF conjunct2 [OF conjunct2 [OF conjunct2 [OF conjunct2 [OF conjunct2 [OF conjunct2 [OF conjunct2 [OF conjunct2 [OF conjunct2 [OF conjunct2 [OF conjunct2 [OF A]]]]]]]]]]]]]]]]
  have w13b: "fst (readFirmwareVersion
              (idle\<lparr>responses := [Inr [0x00, 0x43], Inr [0x00, 0x43, 0x01, 0x02, 0x01, 0xAB]]\<rparr>))
       = Inl InvalidResponseError"
    by (simp add: exchange_def pending_idle parseFirmwareVersion_short)
  have h14: "displays sample_config_full \<noteq> []
      \<and> serializeConfig sample_config_full = Inr (concat (config_chunks sample_config_full)
        @ setUint16_le (calculateConfigCrc (concat (config_chunks sample_config_full))))"
    by (simp add: sample_config_full_def serializeConfig_eq)
  have x14: "exchange (config_ack 0)
      (pending (idle\<lparr>responses := [Inr [0x00, 0x43], Inr [0x00, 0x43, 0x01, 0x02, 0x01, 0xAB]]\<rparr>) 0)
      = Inl InvalidResponseError"
    by (simp add: exchange_def config_ack_def pending_idle validateAck_mismatch)
  from mp [OF conjunct1 [OF conjunct2 [OF conjunct2 [OF conjunct2 [OF conjunct2 [OF conjunct2 [OF conjunct2 [OF conjunct2 [OF conjunct2 [OF conjunct2 [OF conjunct2 [OF conjunct2 [OF conjunct2 [OF conjunct2 [OF conjunct2 [OF conjunct2 [OF conjunct2 [OF conjunct2 [OF conjunct2 [OF conjunct2 [OF A]]]]]]]]]]]]]]]]]]]] h14]
  obtain k where k: "1 \<le> k"
    "performed (idle\<lparr>responses := [Inr [0x00, 0x43], Inr [0x00, 0x43, 0x01, 0x02, 0x01, 0xAB]]\<rparr>)
       (snd (writeConfig sample_config_full
               (idle\<lparr>responses := [Inr [0x00, 0x43], Inr [0x00, 0x43, 0x01, 0x02, 0x01, 0xAB]]\<rparr>)))
       (take k (config_frames (concat (config_chunks sample_config_full)
        @ setUint16_le (calculateConfigCrc (concat (config_chunks sample_config_full))))))
       (replicate k TIMEOUT_ACK)"
    "\<forall>i. Suc i < k \<longrightarrow>
       exchange (config_ack i)
         (pending (idle\<lparr>responses := [Inr [0x00, 0x43], Inr [0x00, 0x43, 0x01, 0x02, 0x01, 0xAB]]\<rparr>) i)
       = Inr ()"
    "fst (writeConfig sample_config_full
            (idle\<lparr>responses := [Inr [0x00, 0x43], Inr [0x00, 0x43, 0x01, 0x02, 0x01, 0xAB]]\<rparr>))
       = exchange (config_ack (k - 1))
           (pending (idle\<lparr>responses := [Inr [0x00, 0x43], Inr [0x00, 0x43, 0x01, 0x02, 0x01, 0xAB]]\<rparr>) (k - 1))"
    by (elim exE conjE) (rule that; assumption)
  have k1: "k = 1"
  proof (rule ccontr)
    assume "k \<noteq> 1"
    with k(1) have "Suc 0 < k"
      by simp
    then have "exchange (config_ack 0)
         (pending (idle\<lparr>responses := [Inr [0x00, 0x43], Inr [0x00, 0x43, 0x01, 0x02, 0x01, 0xAB]]\<rparr>) 0)
       = Inr ()"
      by (rule k(3) [rule_format])
    with x14 show False
      by simp
  qed
  have w14a: "fst (writeConfig sample_config_full
              (idle\<lparr>responses := [Inr [0x00, 0x43], Inr [0x00, 0x43, 0x01, 0x02, 0x01, 0xAB]]\<rparr>))
       = Inl InvalidResponseError"
    using k(4) x14 unfolding k1 by simp
  have w14b: "waits (snd (writeConfig sample_config_full
                      (idle\<lparr>responses := [Inr [0x00, 0x43], Inr [0x00, 0x43, 0x01, 0x02, 0x01, 0xAB]]\<rparr>)))
       = [TIMEOUT_ACK]"
    using k(2) unfolding k1 by (simp add: performed_def idle_def)
  have w14c: "length (written (snd (writeConfig sample_config_full
                               (idle\<lparr>responses := [Inr [0x00, 0x43], Inr [0x00, 0x43, 0x01, 0x02, 0x01, 0xAB]]\<rparr>))))
       = 1"
    using k(2) unfolding k1 by (simp add: performed_def idle_def config_frames_def)
  have strip: "stripCommandEcho [0x00, 0x40, 0x00, 0x00, 0x10, 0x00, 0xAA] READ_CONFIG
                 = [0x00, 0x00, 0x10, 0x00, 0xAA]"
    by (simp add: stripCommandEcho_def getUint16_be_def READ_CONFIG_def)
  have fc: "first_chunk (idle\<lparr>responses := [Inr [0x00, 0x40, 0x00, 0x00, 0x10, 0x00, 0xAA], Inl BLEConnectionError, Inr [0x00, 0x40]]\<rparr>)
      = [0x00, 0x00, 0x10, 0x00, 0xAA]"
    by (simp add: first_chunk_def pending_idle strip)
  have an: "announced (idle\<lparr>responses := [Inr [0x00, 0x40, 0x00, 0x00, 0x10, 0x00, 0xAA], Inl BLEConnectionError, Inr [0x00, 0x40]]\<rparr>) = 16"
    by (simp add: announced_def fc getUint16_le_def)
  have re: "received (idle\<lparr>responses := [Inr [0x00, 0x40, 0x00, 0x00, 0x10, 0x00, 0xAA], Inl BLEConnectionError, Inr [0x00, 0x40]]\<rparr>) 0 = 1"
    by (simp add: received_def fc)
  have p0: "pending (idle\<lparr>responses := [Inr [0x00, 0x40, 0x00, 0x00, 0x10, 0x00, 0xAA], Inl BLEConnectionError, Inr [0x00, 0x40]]\<rparr>) 0
      = Inr [0x00, 0x40, 0x00, 0x00, 0x10, 0x00, 0xAA]"
    and p1: "pending (idle\<lparr>responses := [Inr [0x00, 0x40, 0x00, 0x00, 0x10, 0x00, 0xAA], Inl BLEConnectionError, Inr [0x00, 0x40]]\<rparr>) 1
      = Inl BLEConnectionError"
    by (simp_all add: pending_def)
  from conjunct2 [OF conjunct2 [OF conjunct2 [OF conjunct2 [OF conjunct2 [OF conjunct2 [OF conjunct2 [OF conjunct2 [OF conjunct2 [OF conjunct2 [OF conjunct2 [OF conjunct2 [OF conjunct2 [OF conjunct2 [OF conjunct2 [OF conjunct2 [OF conjunct2 [OF conjunct2 [OF conjunct2 [OF conjunct2 [OF B]]]]]]]]]]]]]]]]]]]]
  obtain n where n:
    "performed (idle\<lparr>responses := [Inr [0x00, 0x40, 0x00, 0x00, 0x10, 0x00, 0xAA], Inl BLEConnectionError, Inr [0x00, 0x40]]\<rparr>)
       (snd (interrogate
               (idle\<lparr>responses := [Inr [0x00, 0x40, 0x00, 0x00, 0x10, 0x00, 0xAA], Inl BLEConnectionError, Inr [0x00, 0x40]]\<rparr>)))
       [buildReadConfigCommand] (TIMEOUT_FIRST_CHUNK # replicate n TIMEOUT_CHUNK)"
    "\<forall>i<n. \<exists>f. pending (idle\<lparr>responses := [Inr [0x00, 0x40, 0x00, 0x00, 0x10, 0x00, 0xAA], Inl BLEConnectionError, Inr [0x00, 0x40]]\<rparr>) i = Inr f"
    "case pending (idle\<lparr>responses := [Inr [0x00, 0x40, 0x00, 0x00, 0x10, 0x00, 0xAA], Inl BLEConnectionError, Inr [0x00, 0x40]]\<rparr>) n of
       Inl e \<Rightarrow> fst (interrogate
              (idle\<lparr>responses := [Inr [0x00, 0x40, 0x00, 0x00, 0x10, 0x00, 0xAA], Inl BLEConnectionError, Inr [0x00, 0x40]]\<rparr>)) = Inl e
     | Inr f \<Rightarrow>
         if length (first_chunk (idle\<lparr>responses := [Inr [0x00, 0x40, 0x00, 0x00, 0x10, 0x00, 0xAA], Inl BLEConnectionError, Inr [0x00, 0x40]]\<rparr>)) < 4
         then n = 0 \<and> fst (interrogate
              (idle\<lparr>responses := [Inr [0x00, 0x40, 0x00, 0x00, 0x10, 0x00, 0xAA], Inl BLEConnectionError, Inr [0x00, 0x40]]\<rparr>)) = Inl RangeError
         else announced (idle\<lparr>responses := [Inr [0x00, 0x40, 0x00, 0x00, 0x10, 0x00, 0xAA], Inl BLEConnectionError, Inr [0x00, 0x40]]\<rparr>)
              \<le> received (idle\<lparr>responses := [Inr [0x00, 0x40, 0x00, 0x00, 0x10, 0x00, 0xAA], Inl BLEConnectionError, Inr [0x00, 0x40]]\<rparr>) n"
    by (elim exE conjE) (rule that; assumption)
  have "n \<le> 1"
  proof (rule ccontr)
    assume "\<not> n \<le> 1"
    then have "1 < n"
      by simp
    then have "\<exists>f. pending (idle\<lparr>responses := [Inr [0x00, 0x40, 0x00, 0x00, 0x10, 0x00, 0xAA], Inl BLEConnectionError, Inr [0x00, 0x40]]\<rparr>) 1 = Inr f"
      by (rule n(2) [rule_format])
    with p1 show False
      by simp
  qed
  moreover have "n \<noteq> 0"
  proof
    assume "n = 0"
    with n(3) show False
      by (simp add: p0 fc an re)
  qed
  ultimately have n1: "n = 1"
    by simp
  have w15a: "fst (interrogate
              (idle\<lparr>responses := [Inr [0x00, 0x40, 0x00, 0x00, 0x10, 0x00, 0xAA], Inl BLEConnectionError, Inr [0x00, 0x40]]\<rparr>))
       = Inl BLEConnectionError"
    using n(3) unfolding n1 p1 by simp
  have w15b: "performed
       (idle\<lparr>responses := [Inr [0x00, 0x40, 0x00, 0x00, 0x10, 0x00, 0xAA], Inl BLEConnectionError, Inr [0x00, 0x40]]\<rparr>)
       (snd (interrogate
               (idle\<lparr>responses := [Inr [0x00, 0x40, 0x00, 0x00, 0x10, 0x00, 0xAA], Inl BLEConnectionError, Inr [0x00, 0x40]]\<rparr>)))
       [buildReadConfigCommand] [TIMEOUT_FIRST_CHUNK, TIMEOUT_CHUNK]"
    using n(1) unfolding n1 by simp
  have h16: "displays (empty_config 1) = []"
    by (simp add: empty_config_def)
  note w16 = mp [OF conjunct1 [OF conjunct2 [OF conjunct2 [OF conjunct2 [OF conjunct2 [OF conjunct2 [OF conjunct2 [OF conjunct2 [OF conjunct2 [OF conjunct2 [OF conjunct2 [OF conjunct2 [OF conjunct2 [OF conjunct2 [OF conjunct2 [OF conjunct2 [OF conjunct2 [OF conjunct2 [OF conjunct2 [OF C]]]]]]]]]]]]]]]]]]] h16]
  show ?thesis
    by (intro conjI) (rule w1 w2 w3 w4 w5 w6 w7 w8a w8b w9a w9b w10a w10b w11 w12 w13a w13b w14a w14b w14c w15a w15b w16)+
qed

subsection \<open>The checksum is linear in the data\<close>

lemma funpow_funpow: "(f ^^ m) ((f ^^ n) x) = (f ^^ (m + n)) x"
  by (simp add: funpow_add)

lemma crc_bit_alt: "crc_bit c = drop_bit 1 c XOR (if odd c then 0xEDB88320 else 0)"
proof -
  have "c AND 1 \<noteq> 0 \<longleftrightarrow> odd c"
    by (simp add: and_one_eq mod_2_eq_odd)
  then show ?thesis
    by (simp add: crc_bit_def)
qed

lemma crc_bit_xor: "crc_bit (a XOR b) = crc_bit a XOR crc_bit b"
  by (simp add: crc_bit_alt even_xor_iff ac_simps)

lemma crc_bits_xor: "(crc_bit ^^ n) (a XOR b) = (crc_bit ^^ n) a XOR (crc_bit ^^ n) b"
  by (induction n) (simp_all add: crc_bit_xor)

lemma crc_byte_xor_register: "crc_byte (c XOR x) b = crc_byte c b XOR (crc_bit ^^ 8) x"
  unfolding crc_byte_def crc_bits_xor by (simp only: ac_simps)

lemma crc_byte_xor_data: "crc_byte c (b XOR m) = crc_byte c b XOR (crc_bit ^^ 8) (ucast m)"
  unfolding crc_byte_def unsigned_xor_eq crc_bits_xor by (simp only: ac_simps)

lemma foldl_crc_byte_xor:
  "foldl crc_byte (c XOR x) bs = foldl crc_byte c bs XOR (crc_bit ^^ (8 * length bs)) x"
proof (induction bs arbitrary: c x)
  case Nil
  then show ?case by simp
next
  case (Cons b bs)
  have "(crc_bit ^^ (8 * length bs)) ((crc_bit ^^ 8) x) = (crc_bit ^^ (8 * length (b # bs))) x"
    unfolding funpow_funpow by (simp add: add.commute del: funpow.simps)
  then show ?case
    by (simp only: foldl_Cons crc_byte_xor_register Cons.IH)
qed

lemma crc_register_update:
  assumes "i < length bs"
  shows "crc_register (bs[i := bs ! i XOR m])
           = crc_register bs XOR (crc_bit ^^ (8 * (length bs - i - 1) + 8)) (ucast m)"
proof -
  let ?pre = "take i bs" and ?post = "drop (Suc i) bs"
  have bs: "bs = ?pre @ bs ! i # ?post"
    using assms by (simp add: id_take_nth_drop)
  have upd: "bs[i := bs ! i XOR m] = ?pre @ (bs ! i XOR m) # ?post"
    using assms by (simp add: upd_conv_take_nth_drop)
  have len: "length ?post = length bs - i - 1"
    by simp
  have "crc_register (bs[i := bs ! i XOR m])
          = foldl crc_byte (crc_byte (foldl crc_byte 0xFFFFFFFF ?pre) (bs ! i XOR m)) ?post"
    unfolding upd crc_register_def by simp
  also have "\<dots> = foldl crc_byte (crc_byte (foldl crc_byte 0xFFFFFFFF ?pre) (bs ! i)) ?post
                    XOR (crc_bit ^^ (8 * length ?post)) ((crc_bit ^^ 8) (ucast m))"
    by (simp only: crc_byte_xor_data foldl_crc_byte_xor)
  also have "foldl crc_byte (crc_byte (foldl crc_byte 0xFFFFFFFF ?pre) (bs ! i)) ?post
               = crc_register bs"
    unfolding crc_register_def by (subst (2) bs) simp
  also have "(crc_bit ^^ (8 * length ?post)) ((crc_bit ^^ 8) (ucast m))
               = (crc_bit ^^ (8 * (length bs - i - 1) + 8)) (ucast m)"
    unfolding len funpow_funpow ..
  finally show ?thesis .
qed

lemma funpow_numeral_step: "(f ^^ numeral k) x = (f ^^ pred_numeral k) (f x)"
  by (simp add: numeral_eq_Suc funpow_swap1)

lemma single_bit_cases:
  "(crc_bit ^^ 8) (ucast (push_bit 0 1 :: byte)) = (crc_bit ^^ (7 - 0)) 0xEDB88320"
  "(crc_bit ^^ 8) (ucast (push_bit 1 1 :: byte)) = (crc_bit ^^ (7 - 1)) 0xEDB88320"
  "(crc_bit ^^ 8) (ucast (push_bit 2 1 :: byte)) = (crc_bit ^^ (7 - 2)) 0xEDB88320"
  "(crc_bit ^^ 8) (ucast (push_bit 3 1 :: byte)) = (crc_bit ^^ (7 - 3)) 0xEDB88320"
  "(crc_bit ^^ 8) (ucast (push_bit 4 1 :: byte)) = (crc_bit ^^ (7 - 4)) 0xEDB88320"
  "(crc_bit ^^ 8) (ucast (push_bit 5 1 :: byte)) = (crc_bit ^^ (7 - 5)) 0xEDB88320"
  "(crc_bit ^^ 8) (ucast (push_bit 6 1 :: byte)) = (crc_bit ^^ (7 - 6)) 0xEDB88320"
  "(crc_bit ^^ 8) (ucast (push_bit 7 1 :: byte)) = (crc_bit ^^ (7 - 7)) 0xEDB88320"
  by (simp_all add: funpow_numeral_step crc_bit_def)

lemma single_bit_register:
  assumes "j < 8"
  shows "(crc_bit ^^ 8) (ucast (push_bit j 1 :: byte)) = (crc_bit ^^ (7 - j)) 0xEDB88320"
proof -
  from assms have "j = 0 \<or> j = 1 \<or> j = 2 \<or> j = 3 \<or> j = 4 \<or> j = 5 \<or> j = 6 \<or> j = 7"
    by arith
  then show ?thesis
    by (elim disjE) (simp_all only: single_bit_cases)
qed

subsection \<open>No single-bit difference leaves the low 16 bits of the register alone\<close>

lemma low16_orbit_numeral:
  "low16_orbit (numeral k) s
     = (if s AND 0xFFFF = 0 then None else low16_orbit (pred_numeral k) (crc_bit s))"
  by (simp add: numeral_eq_Suc)

lemma low16_orbit_add:
  "low16_orbit (a + b) s = (case low16_orbit a s of None \<Rightarrow> None | Some t \<Rightarrow> low16_orbit b t)"
  by (induction a arbitrary: s) simp_all

lemma low16_orbit_Some:
  "low16_orbit n s = Some t \<Longrightarrow> m < n \<Longrightarrow> (crc_bit ^^ m) s AND 0xFFFF \<noteq> 0"
proof (induction n arbitrary: s m)
  case 0
  then show ?case by simp
next
  case (Suc n)
  from Suc.prems(1) have here: "s AND 0xFFFF \<noteq> 0" and later: "low16_orbit n (crc_bit s) = Some t"
    by (simp_all split: if_splits)
  show ?case
  proof (cases m)
    case 0
    then show ?thesis using here by simp
  next
    case (Suc k)
    then have "k < n" using Suc.prems(2) by simp
    from Suc.IH [OF later this] show ?thesis
      by (simp add: Suc funpow_swap1)
  qed
qed

lemma low16_orbit_1: "low16_orbit 755 0xEDB88320 = Some 0xD0950585"
  by (simp add: low16_orbit_numeral crc_bit_def)

lemma low16_orbit_2: "low16_orbit 755 0xD0950585 = Some 0x3352B7CA"
  by (simp add: low16_orbit_numeral crc_bit_def)

lemma low16_orbit_3: "low16_orbit 755 0x3352B7CA = Some 0xCA682606"
  by (simp add: low16_orbit_numeral crc_bit_def)

lemma low16_orbit_4: "low16_orbit 755 0xCA682606 = Some 0x37B5C83B"
  by (simp add: low16_orbit_numeral crc_bit_def)

lemma low16_orbit_5: "low16_orbit 755 0x37B5C83B = Some 0x9EE62949"
  by (simp add: low16_orbit_numeral crc_bit_def)

lemma low16_orbit_6: "low16_orbit 755 0x9EE62949 = Some 0x6D106A02"
  by (simp add: low16_orbit_numeral crc_bit_def)

lemma low16_orbit_7: "low16_orbit 755 0x6D106A02 = Some 0x5512661E"
  by (simp add: low16_orbit_numeral crc_bit_def)

lemma low16_orbit_8: "low16_orbit 755 0x5512661E = Some 0x0117BB71"
  by (simp add: low16_orbit_numeral crc_bit_def)

lemma low16_orbit_6040: "low16_orbit 6040 0xEDB88320 = Some 0x0117BB71"
proof -
  have "low16_orbit (755 + (755 + (755 + (755 + (755 + (755 + (755 + 755))))))) 0xEDB88320
          = Some 0x0117BB71"
    by (simp only: low16_orbit_add low16_orbit_1 low16_orbit_2 low16_orbit_3 low16_orbit_4
        low16_orbit_5 low16_orbit_6 low16_orbit_7 low16_orbit_8 option.case)
  moreover have "(755 + (755 + (755 + (755 + (755 + (755 + (755 + 755))))))) = (6040 :: nat)"
    by simp
  ultimately show ?thesis
    by (simp only:)
qed

lemma low16_difference:
  "m < 6040 \<Longrightarrow> (crc_bit ^^ m) 0xEDB88320 AND 0xFFFF \<noteq> 0"
  using low16_orbit_Some [OF low16_orbit_6040] .

lemma xor_same_left:
  fixes a b c :: "32 word"
  shows "a XOR b = a XOR c \<Longrightarrow> b = c"
proof -
  assume "a XOR b = a XOR c"
  then have "a XOR (a XOR b) = a XOR (a XOR c)"
    by (rule arg_cong)
  then show "b = c"
    by (simp only: bit.xor_left_self)
qed

lemma low16_xor:
  fixes a x :: "32 word"
  assumes "x AND 0xFFFF \<noteq> 0"
  shows "NOT (a XOR x) AND 0xFFFF \<noteq> NOT a AND 0xFFFF"
proof
  assume eq: "NOT (a XOR x) AND 0xFFFF = NOT a AND 0xFFFF"
  have "NOT (a XOR x) = NOT a XOR x"
    by (simp only: bit.xor_compl_left)
  then have "NOT (a XOR x) AND 0xFFFF = (NOT a AND 0xFFFF) XOR (x AND 0xFFFF)"
    by (simp only: bit.conj_xor_distrib2)
  with eq have "(NOT a AND 0xFFFF) XOR (x AND 0xFFFF) = (NOT a AND 0xFFFF) XOR 0"
    by (simp only: xor.right_neutral)
  then have "x AND 0xFFFF = 0"
    by (rule xor_same_left)
  with assms show False
    by simp
qed

lemma calculateConfigCrc_flip:
  assumes "i < length bs" "j < 8" "length bs \<le> 755"
  shows "calculateConfigCrc (bs[i := flip_bit j (bs ! i)]) \<noteq> calculateConfigCrc bs"
proof -
  have "8 * (length bs - i - 1) + (7 - j) < 6040"
    using assms by simp
  then have low: "(crc_bit ^^ (8 * (length bs - i - 1) + (7 - j))) 0xEDB88320 AND 0xFFFF \<noteq> 0"
    by (rule low16_difference)
  have "crc_register (bs[i := flip_bit j (bs ! i)])
          = crc_register bs
              XOR (crc_bit ^^ (8 * (length bs - i - 1) + 8)) (ucast (push_bit j 1 :: byte))"
    unfolding flip_bit_eq_xor by (rule crc_register_update [OF assms(1)])
  also have "(crc_bit ^^ (8 * (length bs - i - 1) + 8)) (ucast (push_bit j 1 :: byte))
               = (crc_bit ^^ (8 * (length bs - i - 1) + (7 - j))) 0xEDB88320"
    unfolding funpow_funpow [symmetric] single_bit_register [OF assms(2)] ..
  finally have "NOT (crc_register (bs[i := flip_bit j (bs ! i)])) AND 0xFFFF
                  \<noteq> NOT (crc_register bs) AND 0xFFFF"
    using low16_xor [OF low] by simp
  then show ?thesis
    by (simp add: calculateConfigCrc_def word_uint_eq_iff)
qed

lemma calculateConfigCrc_range: "is_uint16 (calculateConfigCrc bs)"
proof -
  have "NOT (crc_register bs) AND 0xFFFF \<le> (0xFFFF :: 32 word)"
    by (rule word_and_le1)
  then have "uint (NOT (crc_register bs) AND 0xFFFF) \<le> uint (0xFFFF :: 32 word)"
    by (simp only: word_le_def)
  then show ?thesis
    by (simp add: calculateConfigCrc_def is_uint16_def)
qed

lemma crc32_check_value:
  "NOT (crc_register [0x31, 0x32, 0x33, 0x34, 0x35, 0x36, 0x37, 0x38, 0x39]) = 0xCBF43926"
  by (simp add: crc_register_def crc_byte_def funpow_numeral_step crc_bit_def)

text \<open>
  \<^bold>\<open>C7.\<close> The last two bytes of every output of \<open>serializeConfig\<close> are, in
  little-endian order, the checksum of the bytes before them, which is the low 16 bits
  of the complemented register of the reflected CRC-32 with polynomial 0xEDB88320 and
  initial value 0xFFFFFFFF (its check value on the digits 1 to 9 is 0xCBF43926); and
  flipping any one bit of any of the bytes before them changes the checksum.
\<close>

theorem serializeConfig_crc16_detects_bit_flip:
  assumes "serializeConfig c = Inr out"
  shows "2 \<le> length out
         \<and> getUint16_le out (length out - 2)
             = calculateConfigCrc (take (length out - 2) out)
         \<and> calculateConfigCrc (take (length out - 2) out)
             = uint (NOT (foldl crc_byte 0xFFFFFFFF (take (length out - 2) out)) AND 0xFFFF)
         \<and> NOT (foldl crc_byte 0xFFFFFFFF [0x31, 0x32, 0x33, 0x34, 0x35, 0x36, 0x37, 0x38, 0x39])
             = 0xCBF43926
         \<and> (\<forall>i < length out - 2. \<forall>j < 8.
               calculateConfigCrc ((take (length out - 2) out)[i := flip_bit j (out ! i)])
                 \<noteq> calculateConfigCrc (take (length out - 2) out))"
proof -
  let ?pre = "concat (config_chunks c)"
  from assms have out: "out = ?pre @ setUint16_le (calculateConfigCrc ?pre)"
    by (simp add: serializeConfig_eq)
  have len: "length out = length ?pre + 2"
    by (subst out) (simp add: setUint16_le_def)
  have pre: "take (length out - 2) out = ?pre"
    unfolding len by (subst out) simp
  have trailer: "getUint16_le out (length out - 2) = calculateConfigCrc ?pre"
    unfolding len
    by (subst out)
       (simp add: getUint16_le_def setUint16_le_def nth_append
          u16_word [OF calculateConfigCrc_range])
  have flip: "calculateConfigCrc (?pre[i := flip_bit j (out ! i)]) \<noteq> calculateConfigCrc ?pre"
    if "i < length ?pre" "j < 8" for i j
  proof -
    have "out ! i = ?pre ! i"
      using that(1) by (subst out) (simp add: nth_append)
    then show ?thesis
      using calculateConfigCrc_flip [OF that length_config_chunks] by simp
  qed
  show ?thesis
    unfolding pre
    using trailer flip crc32_check_value
    by (simp add: len calculateConfigCrc_def crc_register_def)
qed

theorem serializeConfig_crc16_detects_bit_flip_witness:
  "serializeConfig (empty_config 1) = Inr [0x00, 0x00, 0x01, 0x84, 0xE9]
   \<and> calculateConfigCrc [0x00, 0x00, 0x01] = 0xE984
   \<and> calculateConfigCrc ([0x00, 0x00, 0x01][1 := flip_bit 3 0x00])
       \<noteq> calculateConfigCrc [0x00, 0x00, 0x01]"
proof -
  have crc: "calculateConfigCrc [0x00, 0x00, 0x01] = 0xE984"
    by (simp add: calculateConfigCrc_def crc_register_def crc_byte_def funpow_numeral_step
        crc_bit_def)
  have ser: "serializeConfig (empty_config 1) = Inr [0x00, 0x00, 0x01, 0x84, 0xE9]"
    by (simp add: serializeConfig_eq config_chunks_def empty_config_def single_chunks_def
        crc setUint16_le_def)
  let ?out = "[0x00, 0x00, 0x01, 0x84, 0xE9] :: bytes"
  from serializeConfig_crc16_detects_bit_flip [OF ser]
  have every: "\<forall>i < length ?out - 2. \<forall>j < 8.
          calculateConfigCrc ((take (length ?out - 2) ?out)[i := flip_bit j (?out ! i)])
            \<noteq> calculateConfigCrc (take (length ?out - 2) ?out)"
    by (elim conjE)
  have "calculateConfigCrc ((take (length ?out - 2) ?out)[1 := flip_bit 3 (?out ! 1)])
            \<noteq> calculateConfigCrc (take (length ?out - 2) ?out)"
    by (rule every [rule_format]) simp_all
  then show ?thesis
    using crc ser by simp
qed

subsection \<open>The serialized configuration as a packet stream\<close>

lemma concat_repeat_chunks:
  "concat (repeat_chunks ty enc xs) = concat (map packet_bytes (repeat_packets ty enc xs))"
proof -
  have "concat (concat (map (\<lambda>i. [[word_of_int (int i), ty], enc (xs ! i)]) js))
          = concat (map packet_bytes
              (map (\<lambda>i. ((ty, word_of_int (int i)), enc (xs ! i))) js))" for js :: "nat list"
    by (induction js) (simp_all add: packet_bytes_simp)
  then show ?thesis
    by (simp add: repeat_chunks_def repeat_packets_def)
qed

lemma concat_single_chunks:
  "concat (single_chunks ty enc x) = concat (map packet_bytes (single_packets ty enc x))"
  by (cases x) (simp_all add: single_chunks_def single_packets_def packet_bytes_simp)

lemma concat_config_chunks:
  "concat (config_chunks c)
     = [0x00, 0x00, word_of_int (version c)] @ concat (map packet_bytes (config_packets c))"
  by (simp add: config_chunks_def config_packets_def concat_repeat_chunks
      concat_single_chunks)

lemma getPacketSize_simps:
  "getPacketSize PACKET_TYPE_SYSTEM = Some 22"
  "getPacketSize PACKET_TYPE_MANUFACTURER = Some 22"
  "getPacketSize PACKET_TYPE_POWER = Some 30"
  "getPacketSize PACKET_TYPE_DISPLAY = Some 46"
  "getPacketSize PACKET_TYPE_LED = Some 22"
  "getPacketSize PACKET_TYPE_SENSOR = Some 30"
  "getPacketSize PACKET_TYPE_DATABUS = Some 30"
  "getPacketSize PACKET_TYPE_BINARY_INPUT = Some 30"
  by (simp_all add: getPacketSize_def packet_type_defs)

lemma valid_single_packets:
  "getPacketSize ty = Some k \<Longrightarrow> (\<And>r. length (enc r) = k) \<Longrightarrow>
     list_all valid_packet (single_packets ty enc x)"
  by (cases x) (simp_all add: single_packets_def valid_packet_def)

lemma valid_repeat_packets:
  "getPacketSize ty = Some k \<Longrightarrow> (\<And>r. length (enc r) = k) \<Longrightarrow>
     list_all valid_packet (repeat_packets ty enc xs)"
  by (simp add: repeat_packets_def valid_packet_def list_all_iff)

lemma valid_config_packets: "list_all valid_packet (config_packets c)"
  unfolding config_packets_def list_all_append
  by (intro conjI valid_single_packets valid_repeat_packets)
     (simp_all add: getPacketSize_simps)

subsection \<open>Distinct keys are stored in order\<close>

lemma Map_set_new: "k \<notin> fst ` set m \<Longrightarrow> Map_set k v m = m @ [(k, v)]"
  by (induction m) auto

lemma store_packets_distinct:
  "distinct (map fst (m @ ps)) \<Longrightarrow> store_packets m ps = m @ ps"
proof (induction ps arbitrary: m)
  case Nil
  then show ?case by (simp add: store_packets_def)
next
  case (Cons p ps)
  from Cons.prems have new: "fst p \<notin> fst ` set m"
    by auto
  have "store_packets m (p # ps) = store_packets (m @ [p]) ps"
    using Map_set_new [OF new, of "snd p"] by (simp add: store_packets_def)
  also have "\<dots> = (m @ [p]) @ ps"
    using Cons.prems by (intro Cons.IH) simp
  finally show ?case by simp
qed

lemma keys_single_packets: "fst ` set (single_packets ty enc x) \<subseteq> {ty} \<times> UNIV"
  by (cases x) (simp_all add: single_packets_def)

lemma keys_repeat_packets: "fst ` set (repeat_packets ty enc xs) \<subseteq> {ty} \<times> UNIV"
  by (auto simp add: repeat_packets_def)

lemma distinct_single_packets: "distinct (map fst (single_packets ty enc x))"
  by (cases x) (simp_all add: single_packets_def)

lemma index_bytes_distinct: "distinct (map (\<lambda>i. (word_of_int (int i) :: byte)) [0, 1, 2, 3])"
  by simp

lemma distinct_repeat_packets: "distinct (map fst (repeat_packets ty enc xs))"
proof -
  have "min (length xs) 4 = 0 \<or> min (length xs) 4 = 1 \<or> min (length xs) 4 = 2
        \<or> min (length xs) 4 = 3 \<or> min (length xs) 4 = 4"
    by arith
  then show ?thesis
    by (elim disjE) (simp_all add: repeat_packets_def upt_rec)
qed

lemma distinct_keys_append:
  fixes xs ys :: packets
  assumes "distinct (map fst xs)" and "fst ` set xs \<subseteq> {t} \<times> UNIV"
    and "distinct (map fst ys) \<and> fst ` set ys \<subseteq> T \<times> UNIV" and "t \<notin> T"
  shows "distinct (map fst (xs @ ys)) \<and> fst ` set (xs @ ys) \<subseteq> insert t T \<times> UNIV"
  using assms by auto

lemma distinct_config_packets: "distinct (map fst (config_packets c))"
proof -
  let ?p8 = "repeat_packets PACKET_TYPE_BINARY_INPUT serializeBinaryInputs (binaryInputs c)"
  let ?p7 = "repeat_packets PACKET_TYPE_DATABUS serializeDataBus (dataBuses c)"
  let ?p6 = "repeat_packets PACKET_TYPE_SENSOR serializeSensorData (sensors c)"
  let ?p5 = "repeat_packets PACKET_TYPE_LED serializeLedConfig (leds c)"
  let ?p4 = "repeat_packets PACKET_TYPE_DISPLAY serializeDisplayConfig (displays c)"
  let ?p3 = "single_packets PACKET_TYPE_POWER serializePowerOption (power_option c)"
  let ?p2 = "single_packets PACKET_TYPE_MANUFACTURER serializeManufacturerData (manufacturer c)"
  let ?p1 = "single_packets PACKET_TYPE_SYSTEM serializeSystemConfig (system c)"
  have d8: "distinct (map fst ?p8) \<and> fst ` set ?p8 \<subseteq> {PACKET_TYPE_BINARY_INPUT} \<times> UNIV"
    using distinct_repeat_packets keys_repeat_packets by (intro conjI)
  have d7: "distinct (map fst (?p7 @ ?p8))
      \<and> fst ` set (?p7 @ ?p8) \<subseteq> insert PACKET_TYPE_DATABUS {PACKET_TYPE_BINARY_INPUT} \<times> UNIV"
    by (rule distinct_keys_append [OF distinct_repeat_packets keys_repeat_packets d8])
      (simp add: packet_type_defs)
  have d6: "distinct (map fst (?p6 @ ?p7 @ ?p8))
      \<and> fst ` set (?p6 @ ?p7 @ ?p8)
          \<subseteq> insert PACKET_TYPE_SENSOR
              (insert PACKET_TYPE_DATABUS {PACKET_TYPE_BINARY_INPUT}) \<times> UNIV"
    by (rule distinct_keys_append [OF distinct_repeat_packets keys_repeat_packets d7])
      (simp add: packet_type_defs)
  have d5: "distinct (map fst (?p5 @ ?p6 @ ?p7 @ ?p8))
      \<and> fst ` set (?p5 @ ?p6 @ ?p7 @ ?p8)
          \<subseteq> insert PACKET_TYPE_LED (insert PACKET_TYPE_SENSOR
              (insert PACKET_TYPE_DATABUS {PACKET_TYPE_BINARY_INPUT})) \<times> UNIV"
    by (rule distinct_keys_append [OF distinct_repeat_packets keys_repeat_packets d6])
      (simp add: packet_type_defs)
  have d4: "distinct (map fst (?p4 @ ?p5 @ ?p6 @ ?p7 @ ?p8))
      \<and> fst ` set (?p4 @ ?p5 @ ?p6 @ ?p7 @ ?p8)
          \<subseteq> insert PACKET_TYPE_DISPLAY (insert PACKET_TYPE_LED (insert PACKET_TYPE_SENSOR
              (insert PACKET_TYPE_DATABUS {PACKET_TYPE_BINARY_INPUT}))) \<times> UNIV"
    by (rule distinct_keys_append [OF distinct_repeat_packets keys_repeat_packets d5])
      (simp add: packet_type_defs)
  have d3: "distinct (map fst (?p3 @ ?p4 @ ?p5 @ ?p6 @ ?p7 @ ?p8))
      \<and> fst ` set (?p3 @ ?p4 @ ?p5 @ ?p6 @ ?p7 @ ?p8)
          \<subseteq> insert PACKET_TYPE_POWER (insert PACKET_TYPE_DISPLAY (insert PACKET_TYPE_LED
              (insert PACKET_TYPE_SENSOR
                (insert PACKET_TYPE_DATABUS {PACKET_TYPE_BINARY_INPUT})))) \<times> UNIV"
    by (rule distinct_keys_append [OF distinct_single_packets keys_single_packets d4])
      (simp add: packet_type_defs)
  have d2: "distinct (map fst (?p2 @ ?p3 @ ?p4 @ ?p5 @ ?p6 @ ?p7 @ ?p8))
      \<and> fst ` set (?p2 @ ?p3 @ ?p4 @ ?p5 @ ?p6 @ ?p7 @ ?p8)
          \<subseteq> insert PACKET_TYPE_MANUFACTURER (insert PACKET_TYPE_POWER
              (insert PACKET_TYPE_DISPLAY (insert PACKET_TYPE_LED (insert PACKET_TYPE_SENSOR
                (insert PACKET_TYPE_DATABUS {PACKET_TYPE_BINARY_INPUT}))))) \<times> UNIV"
    by (rule distinct_keys_append [OF distinct_single_packets keys_single_packets d3])
      (simp add: packet_type_defs)
  have d1: "distinct (map fst (?p1 @ ?p2 @ ?p3 @ ?p4 @ ?p5 @ ?p6 @ ?p7 @ ?p8))
      \<and> fst ` set (?p1 @ ?p2 @ ?p3 @ ?p4 @ ?p5 @ ?p6 @ ?p7 @ ?p8)
          \<subseteq> insert PACKET_TYPE_SYSTEM (insert PACKET_TYPE_MANUFACTURER
              (insert PACKET_TYPE_POWER (insert PACKET_TYPE_DISPLAY (insert PACKET_TYPE_LED
                (insert PACKET_TYPE_SENSOR
                  (insert PACKET_TYPE_DATABUS {PACKET_TYPE_BINARY_INPUT})))))) \<times> UNIV"
    by (rule distinct_keys_append [OF distinct_single_packets keys_single_packets d2])
      (simp add: packet_type_defs)
  from d1 show ?thesis
    unfolding config_packets_def by (rule conjunct1)
qed

lemma tlv_walk_config_packets:
  "tlv_walk (concat (map packet_bytes (config_packets c))) 0 [] = Inr (config_packets c)"
proof -
  let ?body = "concat (map packet_bytes (config_packets c))"
  have "tlv_walk ?body 0 [] = tlv_walk ?body (length ?body) (store_packets [] (config_packets c))"
    using tlv_walk_packets [OF valid_config_packets, of "[]" c "[]" "[]"] by simp
  also have "\<dots> = Inr (store_packets [] (config_packets c))"
    by (rule tlv_walk_end) simp
  also have "store_packets [] (config_packets c) = config_packets c"
    using store_packets_distinct [of "[]" "config_packets c"] distinct_config_packets [of c]
    by simp
  finally show ?thesis .
qed

subsection \<open>The second pass rebuilds the records\<close>

lemma collect_packets_append:
  "collect_packets (xs @ ys) g
     = (case collect_packets xs g of Inl e \<Rightarrow> Inl e | Inr g2 \<Rightarrow> collect_packets ys g2)"
  by (induction xs arbitrary: g) (simp_all split: sum.splits)

lemma collect_system:
  assumes "case x of None \<Rightarrow> True | Some r \<Rightarrow> valid_SystemConfig r" and "system g = None"
  shows "collect_packets (single_packets PACKET_TYPE_SYSTEM serializeSystemConfig x) g
           = Inr (g\<lparr>system := x\<rparr>)"
proof (cases x)
  case None
  then show ?thesis
    using assms(2) by (cases g) (simp add: single_packets_def)
next
  case (Some r)
  then show ?thesis
    using assms(1)
    by (simp add: single_packets_def collect_packet_def packet_type_defs parseSystemConfig_def
        SystemConfig_roundtrip)
qed

lemma collect_manufacturer:
  assumes "case x of None \<Rightarrow> True | Some r \<Rightarrow> valid_ManufacturerData r" and "manufacturer g = None"
  shows "collect_packets (single_packets PACKET_TYPE_MANUFACTURER serializeManufacturerData x) g
           = Inr (g\<lparr>manufacturer := x\<rparr>)"
proof (cases x)
  case None
  then show ?thesis
    using assms(2) by (cases g) (simp add: single_packets_def)
next
  case (Some r)
  then show ?thesis
    using assms(1)
    by (simp add: single_packets_def collect_packet_def packet_type_defs parseManufacturerData_def
        ManufacturerData_roundtrip)
qed

lemma collect_power_option:
  assumes "case x of None \<Rightarrow> True | Some r \<Rightarrow> valid_PowerOption r" and "power_option g = None"
  shows "collect_packets (single_packets PACKET_TYPE_POWER serializePowerOption x) g
           = Inr (g\<lparr>power_option := x\<rparr>)"
proof (cases x)
  case None
  then show ?thesis
    using assms(2) by (cases g) (simp add: single_packets_def)
next
  case (Some r)
  then show ?thesis
    using assms(1)
    by (simp add: single_packets_def collect_packet_def packet_type_defs parsePowerOption_def
        PowerOption_roundtrip)
qed

lemma collect_displays_indices:
  "list_all valid_DisplayConfig xs \<Longrightarrow> \<forall>j \<in> set js. j < length xs \<Longrightarrow>
     collect_packets
       (map (\<lambda>i. ((PACKET_TYPE_DISPLAY, of_nat i), serializeDisplayConfig (xs ! i))) js) g
       = Inr (g\<lparr>displays := displays g @ map ((!) xs) js\<rparr>)"
proof (induction js arbitrary: g)
  case Nil
  then show ?case by (cases g) simp
next
  case (Cons j js)
  from Cons.prems have "valid_DisplayConfig (xs ! j)"
    by (simp add: list_all_length)
  then have one: "collect_packet
      ((PACKET_TYPE_DISPLAY, n), serializeDisplayConfig (xs ! j)) g
      = Inr (g\<lparr>displays := displays g @ [xs ! j]\<rparr>)" for n
    by (simp add: collect_packet_def packet_type_defs parseDisplayConfig_def DisplayConfig_roundtrip)
  show ?case
    using Cons.prems by (simp add: one Cons.IH)
qed

lemma collect_displays:
  assumes "list_all valid_DisplayConfig xs" and "length xs \<le> 4"
  shows "collect_packets (repeat_packets PACKET_TYPE_DISPLAY serializeDisplayConfig xs) g
           = Inr (g\<lparr>displays := displays g @ xs\<rparr>)"
  using collect_displays_indices [OF assms(1), of "[0..<length xs]" g] assms(2)
  by (simp add: repeat_packets_def min_absorb1 map_nth)

lemma collect_leds_indices:
  "list_all valid_LedConfig xs \<Longrightarrow> \<forall>j \<in> set js. j < length xs \<Longrightarrow>
     collect_packets
       (map (\<lambda>i. ((PACKET_TYPE_LED, of_nat i), serializeLedConfig (xs ! i))) js) g
       = Inr (g\<lparr>leds := leds g @ map ((!) xs) js\<rparr>)"
proof (induction js arbitrary: g)
  case Nil
  then show ?case by (cases g) simp
next
  case (Cons j js)
  from Cons.prems have "valid_LedConfig (xs ! j)"
    by (simp add: list_all_length)
  then have one: "collect_packet
      ((PACKET_TYPE_LED, n), serializeLedConfig (xs ! j)) g
      = Inr (g\<lparr>leds := leds g @ [xs ! j]\<rparr>)" for n
    by (simp add: collect_packet_def packet_type_defs parseLedConfig_def LedConfig_roundtrip)
  show ?case
    using Cons.prems by (simp add: one Cons.IH)
qed

lemma collect_leds:
  assumes "list_all valid_LedConfig xs" and "length xs \<le> 4"
  shows "collect_packets (repeat_packets PACKET_TYPE_LED serializeLedConfig xs) g
           = Inr (g\<lparr>leds := leds g @ xs\<rparr>)"
  using collect_leds_indices [OF assms(1), of "[0..<length xs]" g] assms(2)
  by (simp add: repeat_packets_def min_absorb1 map_nth)

lemma collect_sensors_indices:
  "list_all valid_SensorData xs \<Longrightarrow> \<forall>j \<in> set js. j < length xs \<Longrightarrow>
     collect_packets
       (map (\<lambda>i. ((PACKET_TYPE_SENSOR, of_nat i), serializeSensorData (xs ! i))) js) g
       = Inr (g\<lparr>sensors := sensors g @ map ((!) xs) js\<rparr>)"
proof (induction js arbitrary: g)
  case Nil
  then show ?case by (cases g) simp
next
  case (Cons j js)
  from Cons.prems have "valid_SensorData (xs ! j)"
    by (simp add: list_all_length)
  then have one: "collect_packet
      ((PACKET_TYPE_SENSOR, n), serializeSensorData (xs ! j)) g
      = Inr (g\<lparr>sensors := sensors g @ [xs ! j]\<rparr>)" for n
    by (simp add: collect_packet_def packet_type_defs parseSensorData_def SensorData_roundtrip)
  show ?case
    using Cons.prems by (simp add: one Cons.IH)
qed

lemma collect_sensors:
  assumes "list_all valid_SensorData xs" and "length xs \<le> 4"
  shows "collect_packets (repeat_packets PACKET_TYPE_SENSOR serializeSensorData xs) g
           = Inr (g\<lparr>sensors := sensors g @ xs\<rparr>)"
  using collect_sensors_indices [OF assms(1), of "[0..<length xs]" g] assms(2)
  by (simp add: repeat_packets_def min_absorb1 map_nth)

lemma collect_dataBuses_indices:
  "list_all valid_DataBus xs \<Longrightarrow> \<forall>j \<in> set js. j < length xs \<Longrightarrow>
     collect_packets
       (map (\<lambda>i. ((PACKET_TYPE_DATABUS, of_nat i), serializeDataBus (xs ! i))) js) g
       = Inr (g\<lparr>dataBuses := dataBuses g @ map ((!) xs) js\<rparr>)"
proof (induction js arbitrary: g)
  case Nil
  then show ?case by (cases g) simp
next
  case (Cons j js)
  from Cons.prems have "valid_DataBus (xs ! j)"
    by (simp add: list_all_length)
  then have one: "collect_packet
      ((PACKET_TYPE_DATABUS, n), serializeDataBus (xs ! j)) g
      = Inr (g\<lparr>dataBuses := dataBuses g @ [xs ! j]\<rparr>)" for n
    by (simp add: collect_packet_def packet_type_defs parseDataBus_def DataBus_roundtrip)
  show ?case
    using Cons.prems by (simp add: one Cons.IH)
qed

lemma collect_dataBuses:
  assumes "list_all valid_DataBus xs" and "length xs \<le> 4"
  shows "collect_packets (repeat_packets PACKET_TYPE_DATABUS serializeDataBus xs) g
           = Inr (g\<lparr>dataBuses := dataBuses g @ xs\<rparr>)"
  using collect_dataBuses_indices [OF assms(1), of "[0..<length xs]" g] assms(2)
  by (simp add: repeat_packets_def min_absorb1 map_nth)

lemma collect_binaryInputs_indices:
  "list_all valid_BinaryInputs xs \<Longrightarrow> \<forall>j \<in> set js. j < length xs \<Longrightarrow>
     collect_packets
       (map (\<lambda>i. ((PACKET_TYPE_BINARY_INPUT, of_nat i), serializeBinaryInputs (xs ! i))) js) g
       = Inr (g\<lparr>binaryInputs := binaryInputs g @ map ((!) xs) js\<rparr>)"
proof (induction js arbitrary: g)
  case Nil
  then show ?case by (cases g) simp
next
  case (Cons j js)
  from Cons.prems have "valid_BinaryInputs (xs ! j)"
    by (simp add: list_all_length)
  then have one: "collect_packet
      ((PACKET_TYPE_BINARY_INPUT, n), serializeBinaryInputs (xs ! j)) g
      = Inr (g\<lparr>binaryInputs := binaryInputs g @ [xs ! j]\<rparr>)" for n
    by (simp add: collect_packet_def packet_type_defs parseBinaryInputs_def BinaryInputs_roundtrip)
  show ?case
    using Cons.prems by (simp add: one Cons.IH)
qed

lemma collect_binaryInputs:
  assumes "list_all valid_BinaryInputs xs" and "length xs \<le> 4"
  shows "collect_packets (repeat_packets PACKET_TYPE_BINARY_INPUT serializeBinaryInputs xs) g
           = Inr (g\<lparr>binaryInputs := binaryInputs g @ xs\<rparr>)"
  using collect_binaryInputs_indices [OF assms(1), of "[0..<length xs]" g] assms(2)
  by (simp add: repeat_packets_def min_absorb1 map_nth)

lemma collect_config_packets:
  assumes "well_formed_config c"
  shows "collect_packets (config_packets c) (empty_config v)
           = Inr (c\<lparr>version := v, minorVersion := 1, loaded := True\<rparr>)"
proof -
  from assms have
    v1: "case system c of None \<Rightarrow> True | Some r \<Rightarrow> valid_SystemConfig r" and
    v2: "case manufacturer c of None \<Rightarrow> True | Some r \<Rightarrow> valid_ManufacturerData r" and
    v3: "case power_option c of None \<Rightarrow> True | Some r \<Rightarrow> valid_PowerOption r" and
    v4: "list_all valid_DisplayConfig (displays c)" "length (displays c) \<le> 4" and
    v5: "list_all valid_LedConfig (leds c)" "length (leds c) \<le> 4" and
    v6: "list_all valid_SensorData (sensors c)" "length (sensors c) \<le> 4" and
    v7: "list_all valid_DataBus (dataBuses c)" "length (dataBuses c) \<le> 4" and
    v8: "list_all valid_BinaryInputs (binaryInputs c)" "length (binaryInputs c) \<le> 4"
    unfolding well_formed_config_def by simp_all
  have "collect_packets (config_packets c) (empty_config v)
          = Inr (empty_config v\<lparr>system := system c, manufacturer := manufacturer c,
                   power_option := power_option c, displays := displays c, leds := leds c,
                   sensors := sensors c, dataBuses := dataBuses c,
                   binaryInputs := binaryInputs c\<rparr>)"
    unfolding config_packets_def
    by (simp add: collect_packets_append collect_system [OF v1] collect_manufacturer [OF v2]
        collect_power_option [OF v3] collect_displays [OF v4] collect_leds [OF v5]
        collect_sensors [OF v6] collect_dataBuses [OF v7] collect_binaryInputs [OF v8]
        empty_config_def)
  also have "empty_config v\<lparr>system := system c, manufacturer := manufacturer c,
                   power_option := power_option c, displays := displays c, leds := leds c,
                   sensors := sensors c, dataBuses := dataBuses c,
                   binaryInputs := binaryInputs c\<rparr>
               = c\<lparr>version := v, minorVersion := 1, loaded := True\<rparr>"
    by (cases c) (simp add: empty_config_def)
  finally show ?thesis .
qed

subsection \<open>Serializing and parsing back\<close>

lemma config_packets_nonempty: "has_record c \<Longrightarrow> config_packets c \<noteq> []"
  unfolding has_record_def config_packets_def
  by (auto simp add: single_packets_def repeat_packets_def)

lemma length_packet_stream:
  "ps \<noteq> [] \<Longrightarrow> 2 \<le> length (concat (map packet_bytes ps))"
  by (cases ps) (simp_all add: packet_bytes_def)

lemma parseConfigResponse_wrapped:
  assumes "2 \<le> length body"
  shows "parseConfigResponse ([p0, p1, ver] @ body @ [c0, c1]) = parseTlvConfig body (uint ver)"
  using assms by (auto simp add: parseConfigResponse_def Let_def getUint8_def slice_def)

lemma reparse_config_eq:
  assumes "well_formed_config c" and "has_record c"
  shows "reparse_config c = Inr (c\<lparr>minorVersion := 1, loaded := True\<rparr>)"
proof -
  let ?body = "concat (map packet_bytes (config_packets c))"
  from assms(1) have ver: "is_uint8 (version c)"
    unfolding well_formed_config_def by (elim conjE)
  have long: "2 \<le> length ?body"
    using assms(2) by (intro length_packet_stream config_packets_nonempty)
  obtain c0 c1 where crc: "setUint16_le (calculateConfigCrc (concat (config_chunks c))) = [c0, c1]"
    by (simp add: setUint16_le_def)
  have "reparse_config c
          = parseConfigResponse (concat (config_chunks c)
              @ setUint16_le (calculateConfigCrc (concat (config_chunks c))))"
    by (simp add: reparse_config_def serializeConfig_eq)
  also have "\<dots> = parseConfigResponse ([0, 0, word_of_int (version c)] @ ?body @ [c0, c1])"
    unfolding crc by (simp add: concat_config_chunks)
  also have "\<dots> = parseTlvConfig ?body (uint (word_of_int (version c) :: byte))"
    by (rule parseConfigResponse_wrapped [OF long])
  also have "\<dots> = parseTlvConfig ?body (version c)"
    by (simp only: u8_word [OF ver])
  also have "\<dots> = collect_packets (config_packets c) (empty_config (version c))"
    using long by (simp add: parseTlvConfig_def tlv_walk_config_packets)
  also have "\<dots> = Inr (c\<lparr>version := version c, minorVersion := 1, loaded := True\<rparr>)"
    by (rule collect_config_packets [OF assms(1)])
  also have "c\<lparr>version := version c, minorVersion := 1, loaded := True\<rparr>
               = c\<lparr>minorVersion := 1, loaded := True\<rparr>"
    by simp
  finally show ?thesis .
qed

lemma sample_config_new_well_formed:
  "well_formed_config sample_config_new" "has_record sample_config_new"
  by (simp_all add: well_formed_config_def has_record_def sample_config_new_def sample_valid
      is_uint8_def)

lemma crc_empty_config_26: "calculateConfigCrc [0x00, 0x00, 0x1A] = 0x2068"
  by (simp add: calculateConfigCrc_def crc_register_def crc_byte_def funpow_numeral_step
      crc_bit_def)

lemma serializeConfig_empty_26:
  "serializeConfig (empty_config 26) = Inr [0x00, 0x00, 0x1A, 0x68, 0x20]"
proof -
  have "concat (config_chunks (empty_config 26)) = [0x00, 0x00, 0x1A]"
    by (simp add: config_chunks_def empty_config_def single_chunks_def repeat_chunks_def)
  then show ?thesis
    by (simp add: serializeConfig_eq crc_empty_config_26 setUint16_le_def)
qed

lemma parseConfigResponse_empty_26:
  "parseConfigResponse [0x00, 0x00, 0x1A, 0x68, 0x20] = Inl ConfigParseError"
proof -
  have "tlv_walk [0x68, 0x20] 0 [] = Inl ConfigParseError"
    using tlv_walk_truncated [of "0x20" 46 "[]" "[]" "0x68" "[]"]
    by (simp add: getPacketSize_def packet_type_defs)
  then show ?thesis
    by (simp add: parseConfigResponse_def Let_def parseTlvConfig_def)
qed

text \<open>
  \<^bold>\<open>C2\<close> (as stated, refuted). The parser sets \<open>minorVersion\<close> to 1 and
  \<open>loaded\<close> to true whatever the serialized configuration held, so a configuration
  with other values does not come back equal. And the configuration without any
  record and with version 26 serializes to five bytes whose checksum bytes \<open>68 20\<close>
  the parser, taking the short branch that keeps them as packet data, reads as the
  header of a display packet without payload.
\<close>

theorem reparse_config_not_identity:
  "well_formed_config sample_config_new
   \<and> reparse_config sample_config_new
       = Inr (sample_config_new\<lparr>minorVersion := 1, loaded := True\<rparr>)
   \<and> reparse_config sample_config_new \<noteq> Inr sample_config_new
   \<and> well_formed_config (empty_config 26)
   \<and> serializeConfig (empty_config 26) = Inr [0x00, 0x00, 0x1A, 0x68, 0x20]
   \<and> reparse_config (empty_config 26) = Inl ConfigParseError"
proof -
  have a: "reparse_config sample_config_new
       = Inr (sample_config_new\<lparr>minorVersion := 1, loaded := True\<rparr>)"
    by (rule reparse_config_eq [OF sample_config_new_well_formed])
  have b: "reparse_config sample_config_new \<noteq> Inr sample_config_new"
    unfolding a by (simp add: sample_config_new_def)
  have c: "well_formed_config (empty_config 26)"
    by (simp add: well_formed_config_def empty_config_def is_uint8_def)
  have d: "reparse_config (empty_config 26) = Inl ConfigParseError"
    by (simp add: reparse_config_def serializeConfig_empty_26 parseConfigResponse_empty_26)
  show ?thesis
    using sample_config_new_well_formed(1) a b c serializeConfig_empty_26 d
    by (intro conjI)
qed

text \<open>
  \<^bold>\<open>C2\<close> (amended). For every well-formed configuration that holds at least one
  record, parsing the bytes that \<open>serializeConfig\<close> produces, through
  \<open>parseConfigResponse\<close>, yields the configuration with \<open>minorVersion\<close> set to 1 and
  \<open>loaded\<close> set to true: every record, the order of every list and the version byte
  are preserved. So a configuration that already has \<open>minorVersion = 1\<close> and
  \<open>loaded = true\<close> comes back equal.
\<close>

theorem reparse_config_roundtrip:
  assumes "well_formed_config c" and "has_record c"
  shows "reparse_config c = Inr (c\<lparr>minorVersion := 1, loaded := True\<rparr>)
         \<and> (minorVersion c = 1 \<and> loaded c \<longrightarrow> reparse_config c = Inr c)"
proof -
  have eq: "reparse_config c = Inr (c\<lparr>minorVersion := 1, loaded := True\<rparr>)"
    by (rule reparse_config_eq [OF assms])
  have "c\<lparr>minorVersion := 1, loaded := True\<rparr> = c" if "minorVersion c = 1" and "loaded c"
    using that by (cases c) simp
  with eq show ?thesis
    by simp
qed

theorem reparse_config_roundtrip_witness:
  "well_formed_config sample_config_full \<and> has_record sample_config_full
   \<and> minorVersion sample_config_full = 1 \<and> loaded sample_config_full
   \<and> reparse_config sample_config_full = Inr sample_config_full"
proof -
  have dv: "valid_DisplayConfig (sample_DisplayConfig\<lparr>instanceNumber_display := 1\<rparr>)"
    using sample_valid(4) by (simp add: valid_DisplayConfig_def is_uint8_def)
  have wf: "well_formed_config sample_config_full"
    by (simp add: well_formed_config_def sample_config_full_def sample_valid dv is_uint8_def)
  have hr: "has_record sample_config_full"
    by (simp add: has_record_def sample_config_full_def)
  have fl: "minorVersion sample_config_full = 1 \<and> loaded sample_config_full"
    by (simp add: sample_config_full_def)
  from reparse_config_roundtrip [OF wf hr] fl
  have "reparse_config sample_config_full = Inr sample_config_full"
    by (elim conjE) (erule mp, intro conjI)
  with wf hr fl show ?thesis
    by (intro conjI) (elim conjE | assumption)+
qed

end
